theory Spec2Isabelle
  imports Main "HOL-Library.Word"
begin

unbundle bit_operations_syntax

section \<open>Data model of the TTN module (src/main/ttn.ino)\<close>

type_synonym u8 = "8 word"
type_synonym u16 = "16 word"
type_synonym u32 = "32 word"
type_synonym u64 = "64 word"

text \<open>
  Event codes handed to the observers as \<^verbatim>\<open>uint8_t message\<close>. The numeric values of
  \<^verbatim>\<open>EV_JOINED\<close> (the radio library's \<^verbatim>\<open>ev_t\<close>) and of \<^verbatim>\<open>EV_QUEUED\<close>,
  \<^verbatim>\<open>EV_PENDING\<close> (configuration.h) are declared outside the source file; the values
  below are the ones of those headers. No result depends on the numbers.
\<close>

definition EV_JOINED :: u8 where "EV_JOINED = 6"
definition EV_QUEUED :: u8 where "EV_QUEUED = 100"
definition EV_PENDING :: u8 where "EV_PENDING = 101"

text \<open>\<^verbatim>\<open>OP_TXRXPEND\<close>, the "TX/RX transaction pending" bit of \<^verbatim>\<open>LMIC.opmode\<close>.\<close>

definition OP_TXRXPEND :: u16 where "OP_TXRXPEND = 0x0080"

definition UINT32_MAX :: u32 where "UINT32_MAX = 0xFFFFFFFF"

text \<open>
  The radio library (LMIC) is an external collaborator. Every call the module makes into
  it, and every field of \<^verbatim>\<open>LMIC\<close> the module assigns, is recorded in order; the fields
  the module reads (\<^verbatim>\<open>opmode\<close>, \<^verbatim>\<open>dataLen\<close>, \<^verbatim>\<open>dataBeg\<close>, \<^verbatim>\<open>frame\<close>) are inputs
  of the operation that reads them.
\<close>

datatype datarate = DR_SF12 | DR_SF9 | DR_SF7 | DR_SF7B | DR_FSK

datatype band = BAND_CENTI | BAND_MILLI

datatype lmic_call =
    LMIC_reset
  | LMIC_setClockError u16
  | LMIC_setupChannel nat nat datarate datarate band
  | LMIC_selectSubBand nat
  | LMIC_setLinkCheckMode nat
  | LMIC_disableChannel nat
  | LMIC_setDrTxpow u8 nat
  | LMIC_setSession u32 u32 "u8 list" "u8 list"
  | LMIC_startJoining
  | LMIC_setSeqnoUp u32
  | LMIC_setTxData2 u8 "u8 list" u8 u8
  | LMIC_assign_dn2Dr datarate
  | LMIC_assign_txChnl nat

text \<open>
  The \<^verbatim>\<open>Preferences\<close> namespace \<^verbatim>\<open>"lora"\<close> in flash: a key-value store of unsigned
  integers and byte blobs.
\<close>

datatype nvs_val = UInt u32 | Bytes "u8 list"

type_synonym nvs = "string \<rightharpoonup> nvs_val"

text \<open>
  The application globals of the main module that \<^verbatim>\<open>trySendNew\<close> assigns, together
  with whatever else the observers own. An observer is a function pointer
  \<^verbatim>\<open>void(*)(uint8_t message)\<close>; it is modelled as a transformer of the application
  state (observers do not re-enter the TTN module).
\<close>

record 'u app_state =
  packetSent :: bool
  packetQueued :: bool
  user :: 'u

type_synonym 'u observer = "u8 \<Rightarrow> 'u app_state \<Rightarrow> 'u app_state"

text \<open>
  The module state: \<^verbatim>\<open>count\<close> (RTC memory), the function-local static
  \<^verbatim>\<open>lastWriteMsec\<close> of \<^verbatim>\<open>ttn_set_cnt\<close>, the vector \<^verbatim>\<open>_lmic_callbacks\<close>, the calls
  made into the radio library, the flash namespace and the history of the writes
  performed on it (\<^verbatim>\<open>putUInt\<close>/\<^verbatim>\<open>putBytes\<close>). Diagnostic output (\<^verbatim>\<open>Serial\<close>,
  \<^verbatim>\<open>screen_print\<close>) is not part of the state and is left out of the quoted code.
\<close>

record 'u ttn =
  count :: u32
  lastWriteMsec :: u32
  lmic_callbacks :: "'u observer list"
  radio :: "lmic_call list"
  flash :: nvs
  nvs_writes :: "(string \<times> nvs_val) list"
  app :: "'u app_state"

text \<open>The state after a cold boot, from the initialisers in the source.\<close>

definition boot :: "nvs \<Rightarrow> 'u \<Rightarrow> 'u ttn" where
  "boot fl u =
     \<lparr> count = 0, lastWriteMsec = UINT32_MAX, lmic_callbacks = [], radio = [],
       flash = fl, nvs_writes = [],
       app = \<lparr> packetSent = False, packetQueued = False, user = u \<rparr> \<rparr>"

section \<open>Event dispatcher\<close>

text \<open>
  \<^verbatim>\<open>
  void _ttn_callback(uint8_t message) {
      for (uint8_t i=0; i<_lmic_callbacks.size(); i++) {
          (_lmic_callbacks[i])(message);
      }
  }
  \<close>
  The loop index is a \<^verbatim>\<open>uint8_t\<close>: \<open>i + 1\<close> wraps from 255 to 0. The loop need not
  terminate, so it lives in the option monad: \<open>None\<close> is "does not return".
\<close>

partial_function (option) ttn_callback_loop ::
  "'u observer list \<Rightarrow> u8 \<Rightarrow> u8 \<Rightarrow> 'u app_state \<Rightarrow> 'u app_state option" where
  "ttn_callback_loop cbs message i a =
     (if unat i < length cbs
      then ttn_callback_loop cbs message (i + 1) ((cbs ! unat i) message a)
      else Some a)"

definition ttn_callback :: "u8 \<Rightarrow> 'u ttn \<Rightarrow> 'u ttn option" where
  "ttn_callback message s =
     map_option (\<lambda>a. s\<lparr>app := a\<rparr>) (ttn_callback_loop (lmic_callbacks s) message 0 (app s))"

text \<open>
  \<^verbatim>\<open>
  void ttn_register(void (*callback)(uint8_t message)) {
      _lmic_callbacks.push_back(callback);
  }
  \<close>
\<close>

definition ttn_register :: "'u observer \<Rightarrow> 'u ttn \<Rightarrow> 'u ttn" where
  "ttn_register callback s = s\<lparr>lmic_callbacks := lmic_callbacks s @ [callback]\<rparr>"

text \<open>Delivering one message to a list of observers, each once, first to last.\<close>

definition deliver :: "u8 \<Rightarrow> 'u observer list \<Rightarrow> 'u app_state \<Rightarrow> 'u app_state" where
  "deliver message cbs a = fold (\<lambda>cb. cb message) cbs a"

section \<open>Preferences (flash) access\<close>

text \<open>
  The Arduino-ESP32 \<^verbatim>\<open>Preferences\<close> class is a library, not part of the source file.
  Its documented contract is used: \<^verbatim>\<open>begin\<close> may fail (its result is an input of each
  operation; after a failed \<^verbatim>\<open>begin\<close> every getter yields its default);
  \<^verbatim>\<open>getUInt(key, def)\<close> yields the stored integer or \<open>def\<close>;
  \<^verbatim>\<open>getBytes(key, buf, maxLen)\<close> yields the number of bytes copied into \<open>buf\<close>, which is
  0 when the key is absent or the stored blob is longer than \<open>maxLen\<close>;
  \<^verbatim>\<open>putUInt(key, v)\<close> stores \<open>v\<close>.
\<close>

definition prefs_getUInt :: "bool \<Rightarrow> nvs \<Rightarrow> string \<Rightarrow> u32 \<Rightarrow> u32" where
  "prefs_getUInt started fl key dflt =
     (if started then (case fl key of Some (UInt v) \<Rightarrow> v | _ \<Rightarrow> dflt) else dflt)"

definition prefs_getBytes :: "bool \<Rightarrow> nvs \<Rightarrow> string \<Rightarrow> nat \<Rightarrow> nat \<times> u8 list" where
  "prefs_getBytes started fl key maxLen =
     (if started
      then (case fl key of
              Some (Bytes bs) \<Rightarrow> if length bs \<le> maxLen then (length bs, bs) else (0, [])
            | _ \<Rightarrow> (0, []))
      else (0, []))"

definition prefs_putUInt :: "string \<Rightarrow> u32 \<Rightarrow> 'u ttn \<Rightarrow> 'u ttn" where
  "prefs_putUInt key v s =
     s\<lparr>flash := (flash s)(key \<mapsto> UInt v), nvs_writes := nvs_writes s @ [(key, UInt v)]\<rparr>"

section \<open>Frame counter\<close>

definition lmic :: "lmic_call \<Rightarrow> 'u ttn \<Rightarrow> 'u ttn" where
  "lmic c s = s\<lparr>radio := radio s @ [c]\<rparr>"

definition ttn_get_count :: "'u ttn \<Rightarrow> u32" where
  "ttn_get_count s = count s"

text \<open>
  What the module reads from its environment during one operation: \<^verbatim>\<open>millis()\<close>,
  \<^verbatim>\<open>LMIC.opmode\<close> and the result of \<^verbatim>\<open>Preferences::begin\<close>.
\<close>

record io =
  millis :: u32
  opmode :: u16
  nvs_begin :: bool

text \<open>
  \<^verbatim>\<open>
  static void ttn_set_cnt() {
      LMIC_setSeqnoUp(count);
      static uint32_t lastWriteMsec = UINT32_MAX; // Ensure we write at least once
      uint32_t now = millis();
      if(now < lastWriteMsec || (now - lastWriteMsec) > 5 * 60 * 1000L) {
          lastWriteMsec = now;
          Preferences p;
          if(p.begin("lora", false)) {
              p.putUInt("count", count);
              p.end();
          }
      }
  }
  \<close>
\<close>

definition ttn_set_cnt :: "io \<Rightarrow> 'u ttn \<Rightarrow> 'u ttn" where
  "ttn_set_cnt e s =
     (let s1 = lmic (LMIC_setSeqnoUp (count s)) s;
          now = millis e
      in if now < lastWriteMsec s1 \<or> now - lastWriteMsec s1 > 5 * 60 * 1000
         then (let s2 = s1\<lparr>lastWriteMsec := now\<rparr>
               in if nvs_begin e then prefs_putUInt ''count'' (count s2) s2 else s2)
         else s1)"

text \<open>
  \<^verbatim>\<open>
  void ttn_save_counter() {
      Preferences p;
      if(p.begin("lora", false)) {
          p.putUInt("count", count);
          screen_print("Frame Count saved!\n");
          p.end();
      }
  }
  \<close>
\<close>

definition ttn_save_counter :: "io \<Rightarrow> 'u ttn \<Rightarrow> 'u ttn" where
  "ttn_save_counter e s = (if nvs_begin e then prefs_putUInt ''count'' (count s) s else s)"

section \<open>Sending\<close>

text \<open>
  \<^verbatim>\<open>
  void ttn_send(uint8_t * data, uint8_t data_size, uint8_t port, bool confirmed){
      ttn_set_cnt(); // we are about to send using the current packet count
      if (LMIC.opmode & OP_TXRXPEND) {
          _ttn_callback(EV_PENDING);
          return;
      }
      int retCode = LMIC_setTxData2(port, data, data_size, confirmed ? 1 : 0);
      _ttn_callback(EV_QUEUED);
      count++;
  }
  \<close>
\<close>

definition ttn_send :: "io \<Rightarrow> u8 list \<Rightarrow> u8 \<Rightarrow> u8 \<Rightarrow> bool \<Rightarrow> 'u ttn \<Rightarrow> 'u ttn option" where
  "ttn_send e data data_size port confirmed s =
     (let s1 = ttn_set_cnt e s
      in if opmode e AND OP_TXRXPEND \<noteq> 0
         then ttn_callback EV_PENDING s1
         else (case ttn_callback EV_QUEUED
                      (lmic (LMIC_setTxData2 port data data_size (if confirmed then 1 else 0)) s1) of
                 None \<Rightarrow> None
               | Some s3 \<Rightarrow> Some (s3\<lparr>count := count s3 + 1\<rparr>)))"

text \<open>A send request with the environment it meets, and a sequence of them.\<close>

record send_request =
  rq_io :: io
  rq_data :: "u8 list"
  rq_size :: u8
  rq_port :: u8
  rq_confirmed :: bool

definition busy :: "send_request \<Rightarrow> bool" where
  "busy r = (opmode (rq_io r) AND OP_TXRXPEND \<noteq> 0)"

fun run_sends :: "send_request list \<Rightarrow> 'u ttn \<Rightarrow> 'u ttn option" where
  "run_sends [] s = Some s"
| "run_sends (r # rs) s =
     (case ttn_send (rq_io r) (rq_data r) (rq_size r) (rq_port r) (rq_confirmed r) s of
        None \<Rightarrow> None
      | Some s' \<Rightarrow> run_sends rs s')"

section \<open>Build configuration\<close>

text \<open>
  The preprocessor symbols of configuration.h and credentials.h, which are not part of
  the source file, are parameters. \<open>None\<close> stands for "not defined".
\<close>

datatype region = CFG_eu868 | CFG_us915 | CFG_au915 | CFG_other

record config =
  USE_ABP :: bool
  USE_OTAA :: bool
  CLOCK_ERROR :: "nat option"
  REGION :: region
  SINGLE_CHANNEL_GATEWAY :: "nat option"
  LORAWAN_SF :: u8
  DEVADDR :: u32
  NWKSKEY :: "u8 list"
  APPSKEY :: "u8 list"
  LORAWAN_CONFIRMED_EVERY :: int
  LORAWAN_PORT :: u8
  SEND_INTERVAL :: u32
  SLEEP_BETWEEN_MESSAGES :: bool

definition MAX_CLOCK_ERROR :: nat where "MAX_CLOCK_ERROR = 65536"

section \<open>Activation\<close>

definition ttn_sf :: "u8 \<Rightarrow> 'u ttn \<Rightarrow> 'u ttn" where
  "ttn_sf sf s = lmic (LMIC_setDrTxpow sf 14) s"

text \<open>
  \<^verbatim>\<open>
  void forceTxSingleChannelDr() {
      #ifdef SINGLE_CHANNEL_GATEWAY
      for(int i=0; i<9; i++) {
          if(i != SINGLE_CHANNEL_GATEWAY) { LMIC_disableChannel(i); }
      }
      #endif
      ttn_sf(LORAWAN_SF);
  }
  \<close>
\<close>

definition forceTxSingleChannelDr :: "config \<Rightarrow> 'u ttn \<Rightarrow> 'u ttn" where
  "forceTxSingleChannelDr cfg s =
     ttn_sf (LORAWAN_SF cfg)
       (case SINGLE_CHANNEL_GATEWAY cfg of
          None \<Rightarrow> s
        | Some g \<Rightarrow> fold (\<lambda>i. lmic (LMIC_disableChannel i)) (filter (\<lambda>i. i \<noteq> g) [0..<9]) s)"

definition setup_channels :: "region \<Rightarrow> lmic_call list" where
  "setup_channels r =
     (case r of
        CFG_eu868 \<Rightarrow>
          [LMIC_setupChannel 0 868100000 DR_SF12 DR_SF7 BAND_CENTI,
           LMIC_setupChannel 1 868300000 DR_SF12 DR_SF7B BAND_CENTI,
           LMIC_setupChannel 2 868500000 DR_SF12 DR_SF7 BAND_CENTI,
           LMIC_setupChannel 3 867100000 DR_SF12 DR_SF7 BAND_CENTI,
           LMIC_setupChannel 4 867300000 DR_SF12 DR_SF7 BAND_CENTI,
           LMIC_setupChannel 5 867500000 DR_SF12 DR_SF7 BAND_CENTI,
           LMIC_setupChannel 6 867700000 DR_SF12 DR_SF7 BAND_CENTI,
           LMIC_setupChannel 7 867900000 DR_SF12 DR_SF7 BAND_CENTI,
           LMIC_setupChannel 8 868800000 DR_FSK DR_FSK BAND_MILLI]
      | CFG_us915 \<Rightarrow> [LMIC_selectSubBand 1]
      | CFG_au915 \<Rightarrow> [LMIC_selectSubBand 1]
      | CFG_other \<Rightarrow> [])"

text \<open>
  The part of \<^verbatim>\<open>ttn_join\<close> shared by both activation modes: \<^verbatim>\<open>LMIC_reset\<close>, the
  clock error, the channel plan, \<^verbatim>\<open>LMIC_setLinkCheckMode(0)\<close> and the data rate.
  \<^verbatim>\<open>LMIC_setClockError\<close> takes a 16-bit argument: the value
  \<^verbatim>\<open>MAX_CLOCK_ERROR * CLOCK_ERROR / 100\<close> is truncated to 16 bits.
\<close>

definition ttn_join_prepare :: "config \<Rightarrow> 'u ttn \<Rightarrow> 'u ttn" where
  "ttn_join_prepare cfg s =
     (let s1 = lmic LMIC_reset s;
          s2 = (case CLOCK_ERROR cfg of
                  None \<Rightarrow> s1
                | Some ce \<Rightarrow> lmic (LMIC_setClockError (of_nat (MAX_CLOCK_ERROR * ce div 100))) s1);
          s3 = fold lmic (setup_channels (REGION cfg)) s2;
          s4 = lmic (LMIC_setLinkCheckMode 0) s3
      in (case SINGLE_CHANNEL_GATEWAY cfg of
            Some g \<Rightarrow> forceTxSingleChannelDr cfg s4
          | None \<Rightarrow> ttn_sf (LORAWAN_SF cfg) s4))"

text \<open>
  \<^verbatim>\<open>
  #if defined(USE_ABP)
      memcpy_P(appskey, APPSKEY, sizeof(APPSKEY));
      memcpy_P(nwkskey, NWKSKEY, sizeof(NWKSKEY));
      LMIC_setSession(0x1, DEVADDR, nwkskey, appskey);
      LMIC.dn2Dr = DR_SF9;
      _ttn_callback(EV_JOINED);
  #elif defined(USE_OTAA)
      LMIC_startJoining();
      #ifdef SINGLE_CHANNEL_GATEWAY
      LMIC.txChnl = SINGLE_CHANNEL_GATEWAY;
      #endif
      Preferences p;
      p.begin("lora", true); // we intentionally ignore failure here
      uint32_t netId = p.getUInt("netId", UINT32_MAX);
      uint32_t devAddr = p.getUInt("devAddr", UINT32_MAX);
      uint8_t nwkKey[16], artKey[16];
      bool keysgood = p.getBytes("nwkKey", nwkKey, sizeof(nwkKey)) == sizeof(nwkKey) &&
                      p.getBytes("artKey", artKey, sizeof(artKey)) == sizeof(artKey);
      p.end();
      if(!keysgood) {
          LMIC_startJoining();
      }
      else {
          LMIC_setSession(netId, devAddr, nwkKey, artKey);
          _ttn_callback(EV_JOINED);
      }
  #endif
  \<close>
\<close>

definition ttn_join :: "config \<Rightarrow> io \<Rightarrow> 'u ttn \<Rightarrow> 'u ttn option" where
  "ttn_join cfg e s =
     (let s5 = ttn_join_prepare cfg s
      in if USE_ABP cfg
         then ttn_callback EV_JOINED
                (lmic (LMIC_assign_dn2Dr DR_SF9)
                   (lmic (LMIC_setSession 1 (DEVADDR cfg) (NWKSKEY cfg) (APPSKEY cfg)) s5))
         else if USE_OTAA cfg
         then (let s6 = lmic LMIC_startJoining s5;
                   s7 = (case SINGLE_CHANNEL_GATEWAY cfg of
                           None \<Rightarrow> s6
                         | Some g \<Rightarrow> lmic (LMIC_assign_txChnl g) s6);
                   started = nvs_begin e;
                   netId = prefs_getUInt started (flash s7) ''netId'' UINT32_MAX;
                   devAddr = prefs_getUInt started (flash s7) ''devAddr'' UINT32_MAX;
                   nwk = prefs_getBytes started (flash s7) ''nwkKey'' 16;
                   art = prefs_getBytes started (flash s7) ''artKey'' 16;
                   keysgood = (fst nwk = 16 \<and> fst art = 16)
               in if \<not> keysgood
                  then Some (lmic LMIC_startJoining s7)
                  else ttn_callback EV_JOINED
                         (lmic (LMIC_setSession netId devAddr (snd nwk) (snd art)) s7))
         else Some s5)"

text \<open>
  The session the radio library holds after a history of calls: \<^verbatim>\<open>LMIC_reset\<close>
  discards it ("Session and pending data transfers will be discarded"),
  \<^verbatim>\<open>LMIC_setSession\<close> installs one; no other call of this module touches it.
\<close>

fun session_step ::
  "(u32 \<times> u32 \<times> u8 list \<times> u8 list) option \<Rightarrow> lmic_call \<Rightarrow> (u32 \<times> u32 \<times> u8 list \<times> u8 list) option" where
  "session_step ss LMIC_reset = None"
| "session_step ss (LMIC_setSession netid devaddr nwkKey artKey) = Some (netid, devaddr, nwkKey, artKey)"
| "session_step ss c = ss"

definition lmic_session :: "lmic_call list \<Rightarrow> (u32 \<times> u32 \<times> u8 list \<times> u8 list) option" where
  "lmic_session calls = foldl session_step None calls"

text \<open>A complete key record: a blob of exactly 16 bytes is stored under the key.\<close>

definition key_stored :: "nvs \<Rightarrow> string \<Rightarrow> bool" where
  "key_stored fl key = (case fl key of Some (Bytes bs) \<Rightarrow> length bs = 16 | _ \<Rightarrow> False)"

fun is_setSession :: "lmic_call \<Rightarrow> bool" where
  "is_setSession (LMIC_setSession netid devaddr nwkKey artKey) = True"
| "is_setSession c = False"

section \<open>Application: trySendNew and sleep\<close>

text \<open>
  \<^verbatim>\<open>
  bool trySendNew() {
    packetSent = false;
    buildPacketNew(txBuffer);
    #if LORAWAN_CONFIRMED_EVERY > 0
        bool confirmed = (ttn_get_count() % LORAWAN_CONFIRMED_EVERY == 0);
    #else
        bool confirmed = false;
    #endif
        packetQueued = true;
        ttn_send(txBuffer, sizeof(txBuffer), LORAWAN_PORT, confirmed);
        return true;
  }
  \<close>
  \<^verbatim>\<open>buildPacketNew\<close> belongs to the GPS module; the packet it builds is the parameter
  \<open>txBuffer\<close>.
\<close>

definition trySendNew :: "config \<Rightarrow> io \<Rightarrow> u8 list \<Rightarrow> 'u ttn \<Rightarrow> (bool \<times> 'u ttn) option" where
  "trySendNew cfg e txBuffer s =
     (let s1 = s\<lparr>app := (app s)\<lparr>packetSent := False\<rparr>\<rparr>;
          confirmed = (if LORAWAN_CONFIRMED_EVERY cfg > 0
                       then uint (ttn_get_count s1) mod LORAWAN_CONFIRMED_EVERY cfg = 0
                       else False);
          s2 = s1\<lparr>app := (app s1)\<lparr>packetQueued := True\<rparr>\<rparr>
      in map_option (Pair True)
           (ttn_send e txBuffer (of_nat (length txBuffer)) (LORAWAN_PORT cfg) confirmed s2))"

fun run_trySendNew :: "config \<Rightarrow> (io \<times> u8 list) list \<Rightarrow> 'u ttn \<Rightarrow> 'u ttn option" where
  "run_trySendNew cfg [] s = Some s"
| "run_trySendNew cfg ((e, txBuffer) # rs) s =
     (case trySendNew cfg e txBuffer s of
        None \<Rightarrow> None
      | Some (r, s') \<Rightarrow> run_trySendNew cfg rs s')"

text \<open>The \<open>confirmed\<close> arguments of the uplinks handed to \<^verbatim>\<open>LMIC_setTxData2\<close>, in order.\<close>

fun confirmed_flags :: "lmic_call list \<Rightarrow> u8 list" where
  "confirmed_flags [] = []"
| "confirmed_flags (LMIC_setTxData2 port data data_size confirmed # cs) = confirmed # confirmed_flags cs"
| "confirmed_flags (c # cs) = confirmed_flags cs"

text \<open>
  \<^verbatim>\<open>
  void sleep() {
  #if SLEEP_BETWEEN_MESSAGES
    ...
    uint32_t sleep_for = (millis() < SEND_INTERVAL) ? SEND_INTERVAL - millis() : SEND_INTERVAL;
    doDeepSleep(sleep_for);
  #endif
  }
  \<close>
  \<^verbatim>\<open>millis()\<close> is read twice: \<open>t1\<close> in the comparison, \<open>t2\<close> in the subtraction. The
  result is the argument handed to \<^verbatim>\<open>doDeepSleep(uint64_t msecToWake)\<close>, \<open>None\<close> when
  the build does not sleep.
\<close>

definition sleep_for :: "u32 \<Rightarrow> u32 \<Rightarrow> u32 \<Rightarrow> u32" where
  "sleep_for interval t1 t2 = (if t1 < interval then interval - t2 else interval)"

definition sleep :: "config \<Rightarrow> u32 \<Rightarrow> u32 \<Rightarrow> u64 option" where
  "sleep cfg t1 t2 =
     (if SLEEP_BETWEEN_MESSAGES cfg then Some (ucast (sleep_for (SEND_INTERVAL cfg) t1 t2)) else None)"

text \<open>
  The specification's formula, in its own words:
  \<open>sleep_for = base_interval - (now mod base_interval)\<close> clamped to \<open>\<ge> 0\<close>
  (subtraction on \<open>nat\<close> stops at 0).
\<close>

definition spec_sleep_for :: "nat \<Rightarrow> nat \<Rightarrow> nat" where
  "spec_sleep_for base_interval now = base_interval - now mod base_interval"

section \<open>Example inputs\<close>

text \<open>Two build configurations and an observer that logs the messages it receives.\<close>

definition otaa_config :: config where
  "otaa_config =
     \<lparr> USE_ABP = False, USE_OTAA = True, CLOCK_ERROR = None, REGION = CFG_us915,
       SINGLE_CHANNEL_GATEWAY = None, LORAWAN_SF = 3, DEVADDR = 0, NWKSKEY = [], APPSKEY = [],
       LORAWAN_CONFIRMED_EVERY = 10, LORAWAN_PORT = 2, SEND_INTERVAL = 60000,
       SLEEP_BETWEEN_MESSAGES = True \<rparr>"

definition abp_config :: config where
  "abp_config =
     \<lparr> USE_ABP = True, USE_OTAA = False, CLOCK_ERROR = Some 1, REGION = CFG_eu868,
       SINGLE_CHANNEL_GATEWAY = Some 0, LORAWAN_SF = 5, DEVADDR = 0x26011234,
       NWKSKEY = [1, 2, 3, 4, 5, 6, 7, 8, 9, 10, 11, 12, 13, 14, 15, 16],
       APPSKEY = [16, 15, 14, 13, 12, 11, 10, 9, 8, 7, 6, 5, 4, 3, 2, 1],
       LORAWAN_CONFIRMED_EVERY = 0, LORAWAN_PORT = 2, SEND_INTERVAL = 20000,
       SLEEP_BETWEEN_MESSAGES = True \<rparr>"

definition logger :: "u8 list observer" where
  "logger message a = a\<lparr>user := user a @ [message]\<rparr>"

section \<open>Downlink payload\<close>

text \<open>
  \<^verbatim>\<open>
  size_t ttn_response_len() { return LMIC.dataLen; }

  void ttn_response(uint8_t * buffer, size_t len) {
      for (uint8_t i = 0; i < LMIC.dataLen; i++) {
          buffer[i] = LMIC.frame[LMIC.dataBeg + i];
      }
  }
  \<close>
  The caller's buffer is a list of its capacity; \<^verbatim>\<open>LMIC.frame\<close>, \<^verbatim>\<open>LMIC.dataBeg\<close> and
  \<^verbatim>\<open>LMIC.dataLen\<close> are inputs. An access past the end of an array is undefined in C;
  the model stops there with the index of the access and, for a write past the end of
  the buffer, the contents of the buffer at that moment.
\<close>

datatype fault = FrameOverrun nat | BufferOverrun nat "u8 list"

definition ttn_response_len :: "u8 \<Rightarrow> u32" where
  "ttn_response_len dataLen = ucast dataLen"

function ttn_response_loop :: "u8 list \<Rightarrow> u8 \<Rightarrow> u8 \<Rightarrow> u8 \<Rightarrow> u8 list \<Rightarrow> fault + u8 list" where
  "ttn_response_loop frame dataBeg dataLen i buffer =
     (if i < dataLen
      then (if length frame \<le> unat dataBeg + unat i then Inl (FrameOverrun (unat dataBeg + unat i))
            else if length buffer \<le> unat i then Inl (BufferOverrun (unat i) buffer)
            else ttn_response_loop frame dataBeg dataLen (i + 1)
                   (buffer[unat i := frame ! (unat dataBeg + unat i)]))
      else Inr buffer)"
  by pat_completeness auto
termination
proof (relation "measure (\<lambda>(frame, dataBeg, dataLen, i, buffer). unat dataLen - unat i)")
  show "wf (measure (\<lambda>(frame, dataBeg, dataLen, i, buffer). unat dataLen - unat i))"
    by simp
next
  fix frame :: "u8 list" and dataBeg dataLen i :: u8 and buffer :: "u8 list"
  assume lt: "i < dataLen"
  then have "unat i < unat dataLen" by (simp add: word_less_nat_alt)
  moreover have "unat dataLen < 256" using unsigned_less [of dataLen, where ?'a = nat] by simp
  ultimately have "unat (i + 1) = unat i + 1" by (simp add: unat_word_ariths)
  with \<open>unat i < unat dataLen\<close>
  show "((frame, dataBeg, dataLen, i + 1, buffer[unat i := frame ! (unat dataBeg + unat i)]),
         (frame, dataBeg, dataLen, i, buffer))
        \<in> measure (\<lambda>(frame, dataBeg, dataLen, i, buffer). unat dataLen - unat i)"
    by simp
qed

declare ttn_response_loop.simps [simp del]

definition ttn_response :: "u8 list \<Rightarrow> u8 \<Rightarrow> u8 \<Rightarrow> u8 list \<Rightarrow> u32 \<Rightarrow> fault + u8 list" where
  "ttn_response frame dataBeg dataLen buffer len = ttn_response_loop frame dataBeg dataLen 0 buffer"

section \<open>The dispatcher loop\<close>

lemma unat_u8_bound: "unat (i :: u8) < 256"
  using unsigned_less [of i, where ?'a = nat] by simp

lemma ttn_callback_loop_drop:
  "length cbs < 256 \<Longrightarrow> unat i \<le> length cbs \<Longrightarrow>
   ttn_callback_loop cbs message i a = Some (deliver message (drop (unat i) cbs) a)"
proof (induction "length cbs - unat i" arbitrary: i a)
  case 0
  then have "\<not> unat i < length cbs" by simp
  moreover from 0 have "drop (unat i) cbs = []" by simp
  ultimately show ?case
    by (subst ttn_callback_loop.simps) (simp add: deliver_def)
next
  case (Suc n)
  then have lt: "unat i < length cbs" by simp
  with Suc.prems have "unat i + 1 < 256" by simp
  then have step: "unat (i + 1) = unat i + 1"
    by (simp add: unat_word_ariths)
  have "ttn_callback_loop cbs message (i + 1) ((cbs ! unat i) message a)
        = Some (deliver message (drop (unat (i + 1)) cbs) ((cbs ! unat i) message a))"
    using Suc.hyps(2) Suc.prems lt step by (intro Suc.hyps(1)) simp_all
  moreover have "drop (unat i) cbs = cbs ! unat i # drop (unat (i + 1)) cbs"
    using lt step by (simp add: Cons_nth_drop_Suc)
  ultimately show ?case
    using lt by (subst ttn_callback_loop.simps) (simp add: deliver_def)
qed

lemma ttn_callback_loop_returns:
  "length cbs < 256 \<Longrightarrow> ttn_callback_loop cbs message 0 a = Some (deliver message cbs a)"
  using ttn_callback_loop_drop [of cbs 0 message a] by simp

lemma ttn_callback_loop_Some_bound:
  assumes "ttn_callback_loop cbs message i a = Some b"
  shows "length cbs < 256"
  using assms
proof (rule ttn_callback_loop.raw_induct [rotated 1, where P = "\<lambda>cbs message i a b. length cbs < 256"])
  fix loop :: "'a observer list \<Rightarrow> u8 \<Rightarrow> u8 \<Rightarrow> 'a app_state \<Rightarrow> 'a app_state option"
  fix cbs message i a b
  assume IH: "\<And>cbs message i a b. loop cbs message i a = Some b \<Longrightarrow> length cbs < 256"
  assume body: "(if unat i < length cbs
      then loop cbs message (i + 1) ((cbs ! unat i) message a) else Some a) = Some b"
  show "length cbs < 256"
  proof (cases "unat i < length cbs")
    case True
    with body have "loop cbs message (i + 1) ((cbs ! unat i) message a) = Some b" by simp
    then show ?thesis by (rule IH)
  next
    case False
    with unat_u8_bound [of i] show ?thesis by simp
  qed
qed

lemma ttn_callback_loop_diverges:
  "256 \<le> length cbs \<Longrightarrow> ttn_callback_loop cbs message i a = None"
proof (cases "ttn_callback_loop cbs message i a")
  case None
  then show ?thesis .
next
  case (Some b)
  assume "256 \<le> length cbs"
  with ttn_callback_loop_Some_bound [OF Some] show ?thesis by simp
qed

lemma ttn_callback_returns:
  "length (lmic_callbacks s) < 256 \<Longrightarrow>
   ttn_callback message s = Some (s\<lparr>app := deliver message (lmic_callbacks s) (app s)\<rparr>)"
  by (simp add: ttn_callback_def ttn_callback_loop_returns)

lemma ttn_register_appends:
  "lmic_callbacks (ttn_register cb s) = lmic_callbacks s @ [cb]"
  by (simp add: ttn_register_def)

lemma ttn_register_fold:
  "lmic_callbacks (fold ttn_register cbs s) = lmic_callbacks s @ cbs"
  by (induction cbs arbitrary: s) (simp_all add: ttn_register_def)

lemma ttn_callback_diverges:
  "256 \<le> length (lmic_callbacks s) \<Longrightarrow> ttn_callback message s = None"
  by (simp add: ttn_callback_def ttn_callback_loop_diverges)

text \<open>
  C8. \<^verbatim>\<open>ttn_register\<close> appends the observer (\<open>ttn_register_appends\<close>) and, with fewer
  than 256 observers, \<^verbatim>\<open>_ttn_callback\<close> hands the message to each of them once, in
  subscription order (\<open>ttn_callback_returns\<close>). With 256 or more observers the claim
  fails: the \<^verbatim>\<open>uint8_t\<close> index never reaches the size of the vector, so the loop goes
  round the first 256 observers without end and the call does not return.
\<close>

theorem ttn_callback_never_returns_from_256_observers:
  "256 \<le> length (lmic_callbacks s) \<Longrightarrow> ttn_callback message s = None"
  by (rule ttn_callback_diverges)

theorem ttn_callback_never_returns_from_256_observers_witness:
  "256 \<le> length (lmic_callbacks
              (fold ttn_register (replicate 256 (\<lambda>m a. a)) (boot Map.empty ()))) \<and>
   ttn_callback EV_QUEUED
     (fold ttn_register (replicate 256 (\<lambda>m a. a)) (boot Map.empty ())) = None"
proof -
  have h: "256 \<le> length (lmic_callbacks
              (fold ttn_register (replicate 256 (\<lambda>m a. a)) (boot Map.empty ())))"
    by (simp only: ttn_register_fold) simp
  from h ttn_callback_never_returns_from_256_observers [OF h] show ?thesis by blast
qed

section \<open>Sending and the frame counter\<close>

lemma ttn_set_cnt_count [simp]: "count (ttn_set_cnt e s) = count s"
  by (simp add: ttn_set_cnt_def lmic_def prefs_putUInt_def Let_def)

lemma ttn_set_cnt_callbacks [simp]: "lmic_callbacks (ttn_set_cnt e s) = lmic_callbacks s"
  by (simp add: ttn_set_cnt_def lmic_def prefs_putUInt_def Let_def)

lemma ttn_set_cnt_app [simp]: "app (ttn_set_cnt e s) = app s"
  by (simp add: ttn_set_cnt_def lmic_def prefs_putUInt_def Let_def)

lemma ttn_set_cnt_radio [simp]: "radio (ttn_set_cnt e s) = radio s @ [LMIC_setSeqnoUp (count s)]"
  by (simp add: ttn_set_cnt_def lmic_def prefs_putUInt_def Let_def)

lemma ttn_send_busy:
  assumes "length (lmic_callbacks s) < 256" and "opmode e AND OP_TXRXPEND \<noteq> 0"
  shows "ttn_send e data data_size port confirmed s =
           Some ((ttn_set_cnt e s)\<lparr>app := deliver EV_PENDING (lmic_callbacks s) (app s)\<rparr>)"
  using assms by (simp add: ttn_send_def Let_def ttn_callback_returns)

lemma ttn_send_accepted:
  assumes "length (lmic_callbacks s) < 256" and "opmode e AND OP_TXRXPEND = 0"
  shows "ttn_send e data data_size port confirmed s =
           Some ((ttn_set_cnt e s)
                   \<lparr>radio := radio s @ [LMIC_setSeqnoUp (count s),
                                        LMIC_setTxData2 port data data_size (if confirmed then 1 else 0)],
                    app := deliver EV_QUEUED (lmic_callbacks s) (app s),
                    count := count s + 1\<rparr>)"
  using assms by (simp add: ttn_send_def Let_def ttn_callback_returns lmic_def)

lemma run_sends_count:
  assumes "length (lmic_callbacks s) < 256"
  shows "\<exists>s'. run_sends rs s = Some s' \<and> lmic_callbacks s' = lmic_callbacks s \<and>
           count s' = count s + of_nat (length (filter (\<lambda>r. \<not> busy r) rs))"
  using assms
proof (induction rs arbitrary: s)
  case Nil
  then show ?case by simp
next
  case (Cons r rs)
  show ?case
  proof (cases "busy r")
    case True
    let ?s1 = "(ttn_set_cnt (rq_io r) s)\<lparr>app := deliver EV_PENDING (lmic_callbacks s) (app s)\<rparr>"
    have step: "ttn_send (rq_io r) (rq_data r) (rq_size r) (rq_port r) (rq_confirmed r) s = Some ?s1"
      using True Cons.prems by (simp add: ttn_send_busy busy_def)
    have "length (lmic_callbacks ?s1) < 256" using Cons.prems by simp
    from Cons.IH [OF this] obtain s' where
      "run_sends rs ?s1 = Some s'" "lmic_callbacks s' = lmic_callbacks ?s1"
      "count s' = count ?s1 + of_nat (length (filter (\<lambda>r. \<not> busy r) rs))" by blast
    with step True show ?thesis by simp
  next
    case False
    let ?s1 = "(ttn_set_cnt (rq_io r) s)
                 \<lparr>radio := radio s @ [LMIC_setSeqnoUp (count s),
                     LMIC_setTxData2 (rq_port r) (rq_data r) (rq_size r) (if rq_confirmed r then 1 else 0)],
                  app := deliver EV_QUEUED (lmic_callbacks s) (app s),
                  count := count s + 1\<rparr>"
    have step: "ttn_send (rq_io r) (rq_data r) (rq_size r) (rq_port r) (rq_confirmed r) s = Some ?s1"
      using False Cons.prems by (simp add: ttn_send_accepted busy_def)
    have "length (lmic_callbacks ?s1) < 256" using Cons.prems by simp
    from Cons.IH [OF this] obtain s' where
      "run_sends rs ?s1 = Some s'" "lmic_callbacks s' = lmic_callbacks ?s1"
      "count s' = count ?s1 + of_nat (length (filter (\<lambda>r. \<not> busy r) rs))" by blast
    with step False show ?thesis by simp
  qed
qed

lemma u32_add_no_wrap:
  "unat (c :: u32) + n < 2 ^ 32 \<Longrightarrow> c \<le> c + of_nat n"
  by (simp add: word_le_nat_alt unat_word_ariths unat_of_nat)

text \<open>
  C1. With fewer than 256 observers registered (so that every dispatch returns), every
  sequence of send requests returns, and \<^verbatim>\<open>count\<close> has grown by exactly the number of
  accepted (not busy) requests of the sequence: one per accepted send, none per busy
  send. The counter is a \<^verbatim>\<open>uint32_t\<close>, so the sum is taken modulo \<open>2^32\<close> (the wrap
  the data model of the specification names); short of that wrap it has not decreased.
\<close>

theorem frame_counter_counts_accepted_sends:
  assumes "length (lmic_callbacks s) < 256"
  shows "\<exists>s'. run_sends rs s = Some s' \<and>
           count s' = count s + of_nat (length (filter (\<lambda>r. \<not> busy r) rs)) \<and>
           (unat (count s) + length (filter (\<lambda>r. \<not> busy r) rs) < 2 ^ 32 \<longrightarrow> count s \<le> count s')"
  using run_sends_count [OF assms, of rs] u32_add_no_wrap [of "count s"] by auto

theorem frame_counter_counts_accepted_sends_witness:
  "length (lmic_callbacks (ttn_register (\<lambda>m a. a) (boot Map.empty ()))) < 256 \<and>
   (\<exists>s'. run_sends
            [\<lparr>rq_io = \<lparr>millis = 10, opmode = 0, nvs_begin = True\<rparr>, rq_data = [1], rq_size = 1,
               rq_port = 1, rq_confirmed = False\<rparr>,
             \<lparr>rq_io = \<lparr>millis = 20, opmode = 0x80, nvs_begin = True\<rparr>, rq_data = [2], rq_size = 1,
               rq_port = 1, rq_confirmed = False\<rparr>,
             \<lparr>rq_io = \<lparr>millis = 30, opmode = 0, nvs_begin = True\<rparr>, rq_data = [3], rq_size = 1,
               rq_port = 1, rq_confirmed = False\<rparr>]
            (ttn_register (\<lambda>m a. a) (boot Map.empty ())) = Some s' \<and>
          count s' = 2 \<and>
          count (ttn_register (\<lambda>m a. a) (boot Map.empty ())) \<le> count s')"
  using frame_counter_counts_accepted_sends
    [of "ttn_register (\<lambda>m a. a) (boot Map.empty ())"
        "[\<lparr>rq_io = \<lparr>millis = 10, opmode = 0, nvs_begin = True\<rparr>, rq_data = [1], rq_size = 1,
               rq_port = 1, rq_confirmed = False\<rparr>,
             \<lparr>rq_io = \<lparr>millis = 20, opmode = 0x80, nvs_begin = True\<rparr>, rq_data = [2], rq_size = 1,
               rq_port = 1, rq_confirmed = False\<rparr>,
             \<lparr>rq_io = \<lparr>millis = 30, opmode = 0, nvs_begin = True\<rparr>, rq_data = [3], rq_size = 1,
               rq_port = 1, rq_confirmed = False\<rparr>]"]
  by (simp add: ttn_register_def boot_def busy_def OP_TXRXPEND_def)

section \<open>Counter persistence\<close>

lemma ttn_set_cnt_lastWriteMsec:
  "lastWriteMsec (ttn_set_cnt e s) =
     (if millis e < lastWriteMsec s \<or> millis e - lastWriteMsec s > 300000 then millis e
      else lastWriteMsec s)"
  by (simp add: ttn_set_cnt_def lmic_def prefs_putUInt_def Let_def)

lemma ttn_set_cnt_nvs_writes:
  "nvs_writes (ttn_set_cnt e s) =
     nvs_writes s @
       (if (millis e < lastWriteMsec s \<or> millis e - lastWriteMsec s > 300000) \<and> nvs_begin e
        then [(''count'', UInt (count s))] else [])"
  by (simp add: ttn_set_cnt_def lmic_def prefs_putUInt_def Let_def)

lemma ttn_set_cnt_flash:
  "flash (ttn_set_cnt e s) =
       (if (millis e < lastWriteMsec s \<or> millis e - lastWriteMsec s > 300000) \<and> nvs_begin e
        then (flash s)(''count'' \<mapsto> UInt (count s)) else flash s)"
  by (simp add: ttn_set_cnt_def lmic_def prefs_putUInt_def Let_def)

lemma ttn_send_returns:
  assumes "length (lmic_callbacks s) < 256"
  shows "\<exists>s'. ttn_send e data data_size port confirmed s = Some s' \<and>
           lmic_callbacks s' = lmic_callbacks s \<and>
           lastWriteMsec s' = lastWriteMsec (ttn_set_cnt e s) \<and>
           flash s' = flash (ttn_set_cnt e s) \<and>
           nvs_writes s' = nvs_writes (ttn_set_cnt e s)"
proof (cases "opmode e AND OP_TXRXPEND = 0")
  case True
  then show ?thesis by (simp add: ttn_send_accepted [OF assms])
next
  case False
  then show ?thesis by (simp add: ttn_send_busy [OF assms])
qed

lemma run_sends_window:
  assumes "length (lmic_callbacks s) < 256"
    and "\<forall>r\<in>set rs. lastWriteMsec s \<le> millis (rq_io r) \<and> millis (rq_io r) - lastWriteMsec s \<le> 300000"
  shows "\<exists>s'. run_sends rs s = Some s' \<and> nvs_writes s' = nvs_writes s \<and> flash s' = flash s \<and>
           lastWriteMsec s' = lastWriteMsec s"
  using assms
proof (induction rs arbitrary: s)
  case Nil
  then show ?case by simp
next
  case (Cons r rs)
  from Cons.prems(2) have quiet:
    "\<not> (millis (rq_io r) < lastWriteMsec s \<or> millis (rq_io r) - lastWriteMsec s > 300000)"
    by (auto simp: not_less)
  from ttn_send_returns [OF Cons.prems(1)] obtain s1 where
    s1: "ttn_send (rq_io r) (rq_data r) (rq_size r) (rq_port r) (rq_confirmed r) s = Some s1"
        "lmic_callbacks s1 = lmic_callbacks s"
        "lastWriteMsec s1 = lastWriteMsec (ttn_set_cnt (rq_io r) s)"
        "flash s1 = flash (ttn_set_cnt (rq_io r) s)"
        "nvs_writes s1 = nvs_writes (ttn_set_cnt (rq_io r) s)"
    by blast
  with quiet have same: "lastWriteMsec s1 = lastWriteMsec s" "flash s1 = flash s"
    "nvs_writes s1 = nvs_writes s"
    by (simp_all add: ttn_set_cnt_lastWriteMsec ttn_set_cnt_flash ttn_set_cnt_nvs_writes)
  have "length (lmic_callbacks s1) < 256" using s1(2) Cons.prems(1) by simp
  moreover have "\<forall>r\<in>set rs. lastWriteMsec s1 \<le> millis (rq_io r) \<and>
                   millis (rq_io r) - lastWriteMsec s1 \<le> 300000"
    using Cons.prems(2) same(1) by simp
  ultimately obtain s' where "run_sends rs s1 = Some s'" "nvs_writes s' = nvs_writes s1"
    "flash s' = flash s1" "lastWriteMsec s' = lastWriteMsec s1"
    using Cons.IH by blast
  with s1(1) same show ?case by simp
qed

lemma ttn_save_counter_nvs_writes:
  "nvs_writes (ttn_save_counter e s) =
     nvs_writes s @ (if nvs_begin e then [(''count'', UInt (count s))] else [])"
  by (simp add: ttn_save_counter_def prefs_putUInt_def)

lemma ttn_save_counter_lastWriteMsec: "lastWriteMsec (ttn_save_counter e s) = lastWriteMsec s"
  by (simp add: ttn_save_counter_def prefs_putUInt_def)

lemma u32_below_max: "(x :: u32) \<noteq> UINT32_MAX \<Longrightarrow> x < UINT32_MAX"
  unfolding UINT32_MAX_def
proof -
  assume "x \<noteq> 4294967295"
  then have "unat x \<noteq> 4294967295" by (simp add: word_unat_eq_iff)
  moreover have "unat x < 2 ^ 32" using unsigned_less [of x, where ?'a = nat] by simp
  ultimately show "x < 4294967295" by (simp add: word_less_nat_alt)
qed

lemma u32_window_shift:
  assumes "t0 \<le> t" and "t \<le> t'" and "t' - t0 \<le> (300000 :: u32)"
  shows "t' - t \<le> 300000"
proof -
  from assms(1,2) have "t0 \<le> t'" by (rule order_trans)
  then have a: "unat (t' - t0) = unat t' - unat t0" by (rule unat_sub)
  have b: "unat (t' - t) = unat t' - unat t" using assms(2) by (rule unat_sub)
  have "unat t0 \<le> unat t" using assms(1) by (simp add: word_le_nat_alt)
  then have "unat (t' - t) \<le> unat (t' - t0)" unfolding a b by (rule diff_le_mono2)
  then have "t' - t \<le> t' - t0" by (simp add: word_le_nat_alt)
  then show ?thesis using assms(3) by (rule order_trans)
qed

lemma run_sends_one_write:
  assumes "length (lmic_callbacks s) < 256"
    and "sorted (map (\<lambda>r. millis (rq_io r)) rs)"
    and "\<forall>r\<in>set rs. t0 \<le> millis (rq_io r) \<and> millis (rq_io r) - t0 \<le> 300000"
  shows "\<exists>s'. run_sends rs s = Some s' \<and> length (nvs_writes s') \<le> length (nvs_writes s) + 1"
  using assms
proof (induction rs arbitrary: s)
  case Nil
  then show ?case by simp
next
  case (Cons r rs)
  let ?t = "millis (rq_io r)"
  from ttn_send_returns [OF Cons.prems(1)] obtain s1 where
    s1: "ttn_send (rq_io r) (rq_data r) (rq_size r) (rq_port r) (rq_confirmed r) s = Some s1"
        "lmic_callbacks s1 = lmic_callbacks s"
        "lastWriteMsec s1 = lastWriteMsec (ttn_set_cnt (rq_io r) s)"
        "flash s1 = flash (ttn_set_cnt (rq_io r) s)"
        "nvs_writes s1 = nvs_writes (ttn_set_cnt (rq_io r) s)"
    by blast
  have cbs: "length (lmic_callbacks s1) < 256" using s1(2) Cons.prems(1) by simp
  have srt: "sorted (map (\<lambda>r. millis (rq_io r)) rs)" using Cons.prems(2) by simp
  have win: "\<forall>r\<in>set rs. t0 \<le> millis (rq_io r) \<and> millis (rq_io r) - t0 \<le> 300000"
    using Cons.prems(3) by simp
  show ?case
  proof (cases "?t < lastWriteMsec s \<or> ?t - lastWriteMsec s > 300000")
    case True
    then have last: "lastWriteMsec s1 = ?t"
      using s1(3) by (simp add: ttn_set_cnt_lastWriteMsec)
    have one: "length (nvs_writes s1) \<le> length (nvs_writes s) + 1"
      using s1(5) by (simp add: ttn_set_cnt_nvs_writes)
    have "\<forall>r'\<in>set rs. lastWriteMsec s1 \<le> millis (rq_io r') \<and>
            millis (rq_io r') - lastWriteMsec s1 \<le> 300000"
    proof
      fix r' assume r': "r' \<in> set rs"
      have "\<forall>x\<in>set rs. ?t \<le> millis (rq_io x)" using Cons.prems(2) by simp
      then have le: "?t \<le> millis (rq_io r')" using r' by (rule bspec)
      have lo: "t0 \<le> ?t" using Cons.prems(3) by simp
      have hi: "millis (rq_io r') - t0 \<le> 300000" using win r' by simp
      have "millis (rq_io r') - ?t \<le> 300000" by (rule u32_window_shift [OF lo le hi])
      with le last show "lastWriteMsec s1 \<le> millis (rq_io r') \<and>
            millis (rq_io r') - lastWriteMsec s1 \<le> 300000" by simp
    qed
    from run_sends_window [OF cbs this] obtain s' where
      "run_sends rs s1 = Some s'" "nvs_writes s' = nvs_writes s1" by blast
    with s1(1) one show ?thesis by simp
  next
    case False
    then have same: "nvs_writes s1 = nvs_writes s"
      using s1(5) by (simp add: ttn_set_cnt_nvs_writes)
    from Cons.IH [OF cbs srt win] obtain s' where
      "run_sends rs s1 = Some s'" "length (nvs_writes s') \<le> length (nvs_writes s1) + 1" by blast
    with s1(1) same show ?thesis by simp
  qed
qed

text \<open>
  C2. A send writes the counter to flash only when \<open>now < lastWriteMsec\<close> or
  \<open>now - lastWriteMsec > 300000\<close>, and exactly then it sets \<^verbatim>\<open>lastWriteMsec\<close> to
  \<open>now\<close>. Hence any run of sends whose clock readings do not go back and all lie within
  one window of 300000 ms writes at most once, whatever the state it starts from; and
  after \<^verbatim>\<open>lastWriteMsec\<close> is set, sends within the next 300000 ms write nothing and
  leave it alone. \<^verbatim>\<open>ttn_save_counter\<close> consults neither the clock nor
  \<^verbatim>\<open>lastWriteMsec\<close>: it writes the counter once whenever the store opens (a store that
  does not open is the best-effort case of every write) and leaves \<^verbatim>\<open>lastWriteMsec\<close>
  alone. (Fewer than 256 observers, so that the sends return.)
\<close>

theorem counter_write_rate_limit:
  assumes "length (lmic_callbacks s) < 256"
  shows "(\<exists>s'. ttn_send e data data_size port confirmed s = Some s' \<and>
            nvs_writes s' = nvs_writes s @
              (if (millis e < lastWriteMsec s \<or> millis e - lastWriteMsec s > 300000) \<and> nvs_begin e
               then [(''count'', UInt (count s))] else []) \<and>
            lastWriteMsec s' =
              (if millis e < lastWriteMsec s \<or> millis e - lastWriteMsec s > 300000 then millis e
               else lastWriteMsec s)) \<and>
         (sorted (map (\<lambda>r. millis (rq_io r)) rs) \<and>
          (\<forall>r\<in>set rs. t0 \<le> millis (rq_io r) \<and> millis (rq_io r) - t0 \<le> 300000) \<longrightarrow>
          (\<exists>s'. run_sends rs s = Some s' \<and>
                length (nvs_writes s') \<le> length (nvs_writes s) + 1)) \<and>
         ((\<forall>r\<in>set rs. lastWriteMsec s \<le> millis (rq_io r) \<and>
                      millis (rq_io r) - lastWriteMsec s \<le> 300000) \<longrightarrow>
          (\<exists>s'. run_sends rs s = Some s' \<and> nvs_writes s' = nvs_writes s \<and>
                flash s' = flash s \<and> lastWriteMsec s' = lastWriteMsec s)) \<and>
         nvs_writes (ttn_save_counter e s) =
           nvs_writes s @ (if nvs_begin e then [(''count'', UInt (count s))] else []) \<and>
         flash (ttn_save_counter e s) =
           (if nvs_begin e then (flash s)(''count'' \<mapsto> UInt (count s)) else flash s) \<and>
         lastWriteMsec (ttn_save_counter e s) = lastWriteMsec s"
proof (intro conjI impI)
  from ttn_send_returns [OF assms, of e data data_size port confirmed]
  show "\<exists>s'. ttn_send e data data_size port confirmed s = Some s' \<and>
            nvs_writes s' = nvs_writes s @
              (if (millis e < lastWriteMsec s \<or> millis e - lastWriteMsec s > 300000) \<and> nvs_begin e
               then [(''count'', UInt (count s))] else []) \<and>
            lastWriteMsec s' =
              (if millis e < lastWriteMsec s \<or> millis e - lastWriteMsec s > 300000 then millis e
               else lastWriteMsec s)"
    by (auto simp: ttn_set_cnt_nvs_writes ttn_set_cnt_lastWriteMsec)
next
  assume "sorted (map (\<lambda>r. millis (rq_io r)) rs) \<and>
          (\<forall>r\<in>set rs. t0 \<le> millis (rq_io r) \<and> millis (rq_io r) - t0 \<le> 300000)"
  then have "sorted (map (\<lambda>r. millis (rq_io r)) rs)"
    and "\<forall>r\<in>set rs. t0 \<le> millis (rq_io r) \<and> millis (rq_io r) - t0 \<le> 300000"
    by simp_all
  with assms
  show "\<exists>s'. run_sends rs s = Some s' \<and> length (nvs_writes s') \<le> length (nvs_writes s) + 1"
    by (rule run_sends_one_write)
next
  assume "\<forall>r\<in>set rs. lastWriteMsec s \<le> millis (rq_io r) \<and>
                      millis (rq_io r) - lastWriteMsec s \<le> 300000"
  with assms show "\<exists>s'. run_sends rs s = Some s' \<and> nvs_writes s' = nvs_writes s \<and>
                flash s' = flash s \<and> lastWriteMsec s' = lastWriteMsec s"
    by (rule run_sends_window)
next
  show "nvs_writes (ttn_save_counter e s) =
           nvs_writes s @ (if nvs_begin e then [(''count'', UInt (count s))] else [])"
    by (rule ttn_save_counter_nvs_writes)
next
  show "flash (ttn_save_counter e s) =
           (if nvs_begin e then (flash s)(''count'' \<mapsto> UInt (count s)) else flash s)"
    by (simp add: ttn_save_counter_def prefs_putUInt_def)
next
  show "lastWriteMsec (ttn_save_counter e s) = lastWriteMsec s"
    by (rule ttn_save_counter_lastWriteMsec)
qed

theorem counter_write_rate_limit_witness:
  "length (lmic_callbacks (boot Map.empty ())) < 256 \<and>
   (\<exists>s'. ttn_send \<lparr>millis = 1000, opmode = 0, nvs_begin = True\<rparr> [7] 1 1 False
            (boot Map.empty ()) = Some s' \<and>
         nvs_writes s' = [(''count'', UInt 0)] \<and> lastWriteMsec s' = 1000) \<and>
   (\<exists>s'. run_sends
            [\<lparr>rq_io = \<lparr>millis = 1000, opmode = 0, nvs_begin = True\<rparr>, rq_data = [1], rq_size = 1,
               rq_port = 1, rq_confirmed = False\<rparr>,
             \<lparr>rq_io = \<lparr>millis = 1010, opmode = 0, nvs_begin = True\<rparr>, rq_data = [2], rq_size = 1,
               rq_port = 1, rq_confirmed = False\<rparr>,
             \<lparr>rq_io = \<lparr>millis = 1020, opmode = 0, nvs_begin = True\<rparr>, rq_data = [3], rq_size = 1,
               rq_port = 1, rq_confirmed = False\<rparr>]
            (boot Map.empty ()) = Some s' \<and>
         length (nvs_writes s') \<le> 1) \<and>
   (\<exists>s'. run_sends
            [\<lparr>rq_io = \<lparr>millis = 2000, opmode = 0, nvs_begin = True\<rparr>, rq_data = [1], rq_size = 1,
               rq_port = 1, rq_confirmed = False\<rparr>,
             \<lparr>rq_io = \<lparr>millis = 301000, opmode = 0, nvs_begin = True\<rparr>, rq_data = [2], rq_size = 1,
               rq_port = 1, rq_confirmed = False\<rparr>]
            ((boot Map.empty ())\<lparr>lastWriteMsec := 1000\<rparr>) = Some s' \<and>
         nvs_writes s' = [] \<and> lastWriteMsec s' = 1000) \<and>
   nvs_writes (ttn_save_counter \<lparr>millis = 1000, opmode = 0, nvs_begin = True\<rparr>
                 (boot Map.empty ())) = [(''count'', UInt 0)]"
proof -
  let ?e = "\<lparr>millis = 1000, opmode = 0, nvs_begin = True\<rparr>"
  let ?rapid = "[\<lparr>rq_io = \<lparr>millis = 1000, opmode = 0, nvs_begin = True\<rparr>, rq_data = [1], rq_size = 1,
               rq_port = 1, rq_confirmed = False\<rparr>,
             \<lparr>rq_io = \<lparr>millis = 1010, opmode = 0, nvs_begin = True\<rparr>, rq_data = [2], rq_size = 1,
               rq_port = 1, rq_confirmed = False\<rparr>,
             \<lparr>rq_io = \<lparr>millis = 1020, opmode = 0, nvs_begin = True\<rparr>, rq_data = [3], rq_size = 1,
               rq_port = 1, rq_confirmed = False\<rparr>]"
  let ?quiet = "[\<lparr>rq_io = \<lparr>millis = 2000, opmode = 0, nvs_begin = True\<rparr>, rq_data = [1], rq_size = 1,
               rq_port = 1, rq_confirmed = False\<rparr>,
             \<lparr>rq_io = \<lparr>millis = 301000, opmode = 0, nvs_begin = True\<rparr>, rq_data = [2], rq_size = 1,
               rq_port = 1, rq_confirmed = False\<rparr>]"
  have h0: "length (lmic_callbacks (boot Map.empty ())) < 256" by (simp add: boot_def)
  have h1: "length (lmic_callbacks ((boot Map.empty ())\<lparr>lastWriteMsec := 1000\<rparr>)) < 256"
    by (simp add: boot_def)
  note boot_case = counter_write_rate_limit [OF h0, of ?e "[7]" 1 1 False ?rapid 1000]
  note later_case = counter_write_rate_limit [OF h1, of ?e "[7]" 1 1 False ?quiet 1000]
  have a: "\<exists>s'. ttn_send ?e [7] 1 1 False (boot Map.empty ()) = Some s' \<and>
         nvs_writes s' = [(''count'', UInt 0)] \<and> lastWriteMsec s' = 1000"
    using boot_case [THEN conjunct1] by (simp add: boot_def UINT32_MAX_def)
  have "sorted (map (\<lambda>r. millis (rq_io r)) ?rapid) \<and>
        (\<forall>r\<in>set ?rapid. 1000 \<le> millis (rq_io r) \<and> millis (rq_io r) - 1000 \<le> 300000)"
    by simp
  with boot_case [THEN conjunct2, THEN conjunct1]
  have b: "\<exists>s'. run_sends ?rapid (boot Map.empty ()) = Some s' \<and>
         length (nvs_writes s') \<le> length (nvs_writes (boot Map.empty ())) + 1"
    by (rule mp)
  have b': "\<exists>s'. run_sends ?rapid (boot Map.empty ()) = Some s' \<and> length (nvs_writes s') \<le> 1"
  proof -
    from b obtain s' where "run_sends ?rapid (boot Map.empty ()) = Some s'"
      "length (nvs_writes s') \<le> length (nvs_writes (boot Map.empty ())) + 1" by (elim exE conjE)
    moreover have "length (nvs_writes (boot Map.empty ())) = 0" by (simp add: boot_def)
    ultimately show ?thesis by (intro exI [of _ s'] conjI) simp_all
  qed
  have "\<forall>r\<in>set ?quiet. lastWriteMsec ((boot Map.empty ())\<lparr>lastWriteMsec := 1000\<rparr>) \<le> millis (rq_io r) \<and>
          millis (rq_io r) - lastWriteMsec ((boot Map.empty ())\<lparr>lastWriteMsec := 1000\<rparr>) \<le> 300000"
    by simp
  with later_case [THEN conjunct2, THEN conjunct2, THEN conjunct1]
  have "\<exists>s'. run_sends ?quiet ((boot Map.empty ())\<lparr>lastWriteMsec := 1000\<rparr>) = Some s' \<and>
          nvs_writes s' = nvs_writes ((boot Map.empty ())\<lparr>lastWriteMsec := 1000\<rparr>) \<and>
          flash s' = flash ((boot Map.empty ())\<lparr>lastWriteMsec := 1000\<rparr>) \<and>
          lastWriteMsec s' = lastWriteMsec ((boot Map.empty ())\<lparr>lastWriteMsec := 1000\<rparr>)"
    by (rule mp)
  then obtain s' where "run_sends ?quiet ((boot Map.empty ())\<lparr>lastWriteMsec := 1000\<rparr>) = Some s'"
      "nvs_writes s' = nvs_writes ((boot Map.empty ())\<lparr>lastWriteMsec := 1000\<rparr>)"
      "lastWriteMsec s' = lastWriteMsec ((boot Map.empty ())\<lparr>lastWriteMsec := 1000\<rparr>)"
    by (elim exE conjE)
  then have c: "\<exists>s'. run_sends ?quiet ((boot Map.empty ())\<lparr>lastWriteMsec := 1000\<rparr>) = Some s' \<and>
         nvs_writes s' = [] \<and> lastWriteMsec s' = 1000"
    by (intro exI [of _ s'] conjI) (simp_all add: boot_def)
  have d: "nvs_writes (ttn_save_counter ?e (boot Map.empty ())) = [(''count'', UInt 0)]"
    using boot_case [THEN conjunct2, THEN conjunct2, THEN conjunct2, THEN conjunct1]
    by (simp add: boot_def)
  from h0 a b' c d show ?thesis by (intro conjI)
qed

text \<open>
  C3, as stated: a busy send leaves all send-related state unchanged. \<^verbatim>\<open>ttn_set_cnt\<close>
  runs before the busy check: on a busy first send after boot the uplink sequence number
  of the radio is set, \<^verbatim>\<open>lastWriteMsec\<close> moves and the counter is written to flash.
\<close>

theorem busy_send_changes_state_counterexample:
  "lastWriteMsec ((boot Map.empty ())\<lparr>count := 5\<rparr>) = 0xFFFFFFFF \<and>
   map_option lastWriteMsec
     (ttn_send \<lparr>millis = 1000, opmode = 0x80, nvs_begin = True\<rparr> [7] 1 1 False
        ((boot Map.empty ())\<lparr>count := 5\<rparr>)) = Some 1000 \<and>
   nvs_writes ((boot Map.empty ())\<lparr>count := 5\<rparr>) = [] \<and>
   map_option nvs_writes
     (ttn_send \<lparr>millis = 1000, opmode = 0x80, nvs_begin = True\<rparr> [7] 1 1 False
        ((boot Map.empty ())\<lparr>count := 5\<rparr>)) = Some [(''count'', UInt 5)] \<and>
   radio ((boot Map.empty ())\<lparr>count := 5\<rparr>) = [] \<and>
   map_option radio
     (ttn_send \<lparr>millis = 1000, opmode = 0x80, nvs_begin = True\<rparr> [7] 1 1 False
        ((boot Map.empty ())\<lparr>count := 5\<rparr>)) = Some [LMIC_setSeqnoUp 5]"
  by (simp add: ttn_send_busy boot_def OP_TXRXPEND_def UINT32_MAX_def ttn_set_cnt_lastWriteMsec
        ttn_set_cnt_nvs_writes)

text \<open>
  C3, amended: when \<^verbatim>\<open>LMIC.opmode\<close> has \<^verbatim>\<open>OP_TXRXPEND\<close> set (and fewer than 256
  observers are registered), \<^verbatim>\<open>ttn_send\<close> returns, every observer has received
  \<^verbatim>\<open>EV_PENDING\<close> once, \<^verbatim>\<open>count\<close> and the observer list are unchanged, and the only
  call made into the radio library is \<^verbatim>\<open>LMIC_setSeqnoUp(count)\<close>: no uplink is
  submitted or queued. What does change is what \<^verbatim>\<open>ttn_set_cnt\<close> changes: the rate-limited
  persistence state (\<^verbatim>\<open>lastWriteMsec\<close>, the stored counter).
\<close>

theorem busy_send_discards:
  assumes "length (lmic_callbacks s) < 256" and "opmode e AND OP_TXRXPEND \<noteq> 0"
  shows "\<exists>s'. ttn_send e data data_size port confirmed s = Some s' \<and>
           app s' = deliver EV_PENDING (lmic_callbacks s) (app s) \<and>
           count s' = count s \<and>
           radio s' = radio s @ [LMIC_setSeqnoUp (count s)] \<and>
           lmic_callbacks s' = lmic_callbacks s \<and>
           lastWriteMsec s' =
             (if millis e < lastWriteMsec s \<or> millis e - lastWriteMsec s > 300000 then millis e
              else lastWriteMsec s) \<and>
           flash s' =
             (if (millis e < lastWriteMsec s \<or> millis e - lastWriteMsec s > 300000) \<and> nvs_begin e
              then (flash s)(''count'' \<mapsto> UInt (count s)) else flash s) \<and>
           nvs_writes s' = nvs_writes s @
             (if (millis e < lastWriteMsec s \<or> millis e - lastWriteMsec s > 300000) \<and> nvs_begin e
              then [(''count'', UInt (count s))] else [])"
  by (simp add: ttn_send_busy [OF assms] ttn_set_cnt_lastWriteMsec ttn_set_cnt_flash
        ttn_set_cnt_nvs_writes)

theorem busy_send_discards_witness:
  "length (lmic_callbacks (ttn_register (\<lambda>m a. a\<lparr>user := m # user a\<rparr>) (boot Map.empty []))) < 256 \<and>
   opmode \<lparr>millis = 1000, opmode = 0x80, nvs_begin = True\<rparr> AND OP_TXRXPEND \<noteq> 0 \<and>
   (\<exists>s'. ttn_send \<lparr>millis = 1000, opmode = 0x80, nvs_begin = True\<rparr> [7] 1 1 False
            (ttn_register (\<lambda>m a. a\<lparr>user := m # user a\<rparr>) (boot Map.empty [])) = Some s' \<and>
         user (app s') = [EV_PENDING] \<and> count s' = 0 \<and> radio s' = [LMIC_setSeqnoUp 0])"
  using busy_send_discards [of "ttn_register (\<lambda>m a. a\<lparr>user := m # user a\<rparr>) (boot Map.empty [])"
      "\<lparr>millis = 1000, opmode = 0x80, nvs_begin = True\<rparr>" "[7]" 1 1 False]
  by (auto simp add: ttn_register_def boot_def OP_TXRXPEND_def deliver_def UINT32_MAX_def)

text \<open>
  C10, as stated: the first send after a boot always writes the counter. It does not when
  the clock reads \<open>2^32 - 1\<close> (neither branch of the test holds), nor when the store
  cannot be opened.
\<close>

theorem first_send_without_write_counterexample:
  "map_option nvs_writes
     (ttn_send \<lparr>millis = 0xFFFFFFFF, opmode = 0, nvs_begin = True\<rparr> [7] 1 1 False
        (boot Map.empty ())) = Some [] \<and>
   map_option nvs_writes
     (ttn_send \<lparr>millis = 1000, opmode = 0, nvs_begin = False\<rparr> [7] 1 1 False
        (boot Map.empty ())) = Some []"
  by (simp add: ttn_send_accepted boot_def OP_TXRXPEND_def UINT32_MAX_def ttn_set_cnt_nvs_writes)

text \<open>
  C10, amended: on the first send after a boot (\<open>lastWriteMsec = UINT32_MAX\<close>), accepted
  or busy, if the clock does not read \<open>2^32 - 1\<close> then \<open>now < lastWriteMsec\<close> holds,
  \<^verbatim>\<open>lastWriteMsec\<close> becomes \<open>now\<close> whatever the 5-minute window, and the counter is
  written to flash if the store opens. (Fewer than 256 observers, so that the send
  returns.)
\<close>

theorem first_send_after_boot_persists:
  assumes "length (lmic_callbacks s) < 256"
    and "lastWriteMsec s = UINT32_MAX" and "millis e \<noteq> UINT32_MAX"
  shows "millis e < lastWriteMsec s \<and>
         (\<exists>s'. ttn_send e data data_size port confirmed s = Some s' \<and>
            lastWriteMsec s' = millis e \<and>
            nvs_writes s' =
              nvs_writes s @ (if nvs_begin e then [(''count'', UInt (count s))] else []) \<and>
            flash s' = (if nvs_begin e then (flash s)(''count'' \<mapsto> UInt (count s)) else flash s))"
proof -
  have lt: "millis e < lastWriteMsec s"
    using assms(2,3) by (simp add: u32_below_max)
  with ttn_send_returns [OF assms(1), of e data data_size port confirmed]
  show ?thesis
    by (auto simp: ttn_set_cnt_lastWriteMsec ttn_set_cnt_nvs_writes ttn_set_cnt_flash)
qed

theorem first_send_after_boot_persists_witness:
  "length (lmic_callbacks ((boot Map.empty ())\<lparr>count := 41\<rparr>)) < 256 \<and>
   lastWriteMsec ((boot Map.empty ())\<lparr>count := 41\<rparr>) = UINT32_MAX \<and>
   millis \<lparr>millis = 1000, opmode = 0, nvs_begin = True\<rparr> \<noteq> UINT32_MAX \<and>
   (\<exists>s'. ttn_send \<lparr>millis = 1000, opmode = 0, nvs_begin = True\<rparr> [7] 1 1 False
            ((boot Map.empty ())\<lparr>count := 41\<rparr>) = Some s' \<and>
         lastWriteMsec s' = 1000 \<and>
         nvs_writes s' = [(''count'', UInt 41)] \<and>
         flash s' ''count'' = Some (UInt 41))"
  using first_send_after_boot_persists
    [of "(boot Map.empty ())\<lparr>count := 41\<rparr>" "\<lparr>millis = 1000, opmode = 0, nvs_begin = True\<rparr>"
        "[7]" 1 1 False]
  by (auto simp add: boot_def UINT32_MAX_def)

section \<open>Activation\<close>

lemma lmic_fold: "fold lmic cs s = s\<lparr>radio := radio s @ cs\<rparr>"
  by (induction cs arbitrary: s) (simp_all add: lmic_def)

lemma lmic_fold_disable:
  "fold (\<lambda>i. lmic (LMIC_disableChannel i)) xs s = s\<lparr>radio := radio s @ map LMIC_disableChannel xs\<rparr>"
  by (induction xs arbitrary: s) (simp_all add: lmic_def)

lemma setup_channels_neutral:
  "c \<in> set (setup_channels r) \<Longrightarrow> \<not> is_setSession c \<and> c \<noteq> LMIC_reset"
  by (cases r) (auto simp: setup_channels_def)

lemma ttn_join_prepare_calls:
  "\<exists>cs. (\<forall>c\<in>set cs. \<not> is_setSession c \<and> c \<noteq> LMIC_reset) \<and>
        (\<forall>s :: 'u ttn. ttn_join_prepare cfg s = s\<lparr>radio := radio s @ LMIC_reset # cs\<rparr>)"
proof -
  let ?ce = "case CLOCK_ERROR cfg of None \<Rightarrow> []
             | Some ce \<Rightarrow> [LMIC_setClockError (of_nat (MAX_CLOCK_ERROR * ce div 100))]"
  let ?dis = "case SINGLE_CHANNEL_GATEWAY cfg of None \<Rightarrow> []
              | Some g \<Rightarrow> map LMIC_disableChannel (filter (\<lambda>i. i \<noteq> g) [0..<9])"
  let ?cs = "?ce @ setup_channels (REGION cfg) @ [LMIC_setLinkCheckMode 0] @ ?dis
             @ [LMIC_setDrTxpow (LORAWAN_SF cfg) 14]"
  have "\<forall>c\<in>set ?cs. \<not> is_setSession c \<and> c \<noteq> LMIC_reset"
    by (auto split: option.splits dest: setup_channels_neutral)
  moreover have "\<forall>s :: 'u ttn. ttn_join_prepare cfg s = s\<lparr>radio := radio s @ LMIC_reset # ?cs\<rparr>"
    by (simp add: ttn_join_prepare_def forceTxSingleChannelDr_def ttn_sf_def lmic_fold
          lmic_fold_disable lmic_def Let_def split: option.splits)
  ultimately show ?thesis by blast
qed

lemma session_step_neutral:
  "\<not> is_setSession c \<Longrightarrow> c \<noteq> LMIC_reset \<Longrightarrow> session_step ss c = ss"
  by (cases c) simp_all

lemma session_fold_neutral:
  "\<forall>c\<in>set cs. \<not> is_setSession c \<and> c \<noteq> LMIC_reset \<Longrightarrow> foldl session_step ss cs = ss"
  by (induction cs arbitrary: ss) (simp_all add: session_step_neutral)

lemma lmic_session_after_reset:
  "\<forall>c\<in>set cs. \<not> is_setSession c \<and> c \<noteq> LMIC_reset \<Longrightarrow>
   lmic_session (pre @ LMIC_reset # cs @ post) = foldl session_step None post"
  by (simp add: lmic_session_def session_fold_neutral)

lemma filter_setSession_neutral:
  "\<forall>c\<in>set cs. \<not> is_setSession c \<and> c \<noteq> LMIC_reset \<Longrightarrow> filter is_setSession cs = []"
  by (induction cs) simp_all

lemma keysgood_iff:
  "(fst (prefs_getBytes started fl key 16) = 16) = (started \<and> key_stored fl key)"
  by (auto simp: prefs_getBytes_def key_stored_def split: option.splits nvs_val.splits)

text \<open>
  C4, as stated: a stored record in which any of network id, device address or the two
  keys is missing makes \<^verbatim>\<open>ttn_join\<close> fall back to a full join. Only the two keys are
  tested (\<^verbatim>\<open>keysgood\<close>): with both keys stored and no \<open>netId\<close> and \<open>devAddr\<close>, a session
  is installed with the getter defaults \<open>0xFFFFFFFF\<close> in their place.
\<close>

theorem otaa_join_missing_netid_counterexample:
  "map_option radio
     (ttn_join otaa_config \<lparr>millis = 0, opmode = 0, nvs_begin = True\<rparr>
        (boot [''nwkKey'' \<mapsto> Bytes [1, 2, 3, 4, 5, 6, 7, 8, 9, 10, 11, 12, 13, 14, 15, 16],
               ''artKey'' \<mapsto> Bytes [16, 15, 14, 13, 12, 11, 10, 9, 8, 7, 6, 5, 4, 3, 2, 1]] ()))
   = Some [LMIC_reset, LMIC_selectSubBand 1, LMIC_setLinkCheckMode 0, LMIC_setDrTxpow 3 14,
           LMIC_startJoining,
           LMIC_setSession 0xFFFFFFFF 0xFFFFFFFF
             [1, 2, 3, 4, 5, 6, 7, 8, 9, 10, 11, 12, 13, 14, 15, 16]
             [16, 15, 14, 13, 12, 11, 10, 9, 8, 7, 6, 5, 4, 3, 2, 1]]"
  by (simp add: ttn_join_def ttn_join_prepare_def otaa_config_def boot_def lmic_def ttn_sf_def
        setup_channels_def prefs_getUInt_def prefs_getBytes_def UINT32_MAX_def Let_def
        ttn_callback_returns)

text \<open>
  C4, amended: under OTAA, whenever the store does not open or either session key is
  missing or is not a blob of exactly 16 bytes, \<^verbatim>\<open>ttn_join\<close> returns having called
  \<^verbatim>\<open>LMIC_startJoining\<close> last and \<^verbatim>\<open>LMIC_setSession\<close> not at all: the radio holds no
  session, no \<^verbatim>\<open>EV_JOINED\<close> is published, and flash and counter are untouched.
\<close>

theorem otaa_join_without_keys_starts_full_join:
  assumes "\<not> USE_ABP cfg" and "USE_OTAA cfg"
    and "\<not> (nvs_begin e \<and> key_stored (flash s) ''nwkKey'' \<and> key_stored (flash s) ''artKey'')"
  shows "\<exists>s'. ttn_join cfg e s = Some s' \<and>
           lmic_session (radio s') = None \<and>
           last (radio s') = LMIC_startJoining \<and>
           filter is_setSession (radio s') = filter is_setSession (radio s) \<and>
           app s' = app s \<and> flash s' = flash s \<and> count s' = count s"
proof -
  obtain cs where neutral: "\<forall>c\<in>set cs. \<not> is_setSession c \<and> c \<noteq> LMIC_reset"
    and prep: "\<And>s :: 'a ttn. ttn_join_prepare cfg s = s\<lparr>radio := radio s @ LMIC_reset # cs\<rparr>"
    using ttn_join_prepare_calls [of cfg] by blast
  let ?tx = "case SINGLE_CHANNEL_GATEWAY cfg of None \<Rightarrow> [] | Some g \<Rightarrow> [LMIC_assign_txChnl g]"
  let ?post = "LMIC_startJoining # ?tx @ [LMIC_startJoining]"
  have bad: "\<not> (fst (prefs_getBytes (nvs_begin e) (flash s) ''nwkKey'' 16) = 16 \<and>
                fst (prefs_getBytes (nvs_begin e) (flash s) ''artKey'' 16) = 16)"
    using assms(3) by (simp add: keysgood_iff)
  have run: "ttn_join cfg e s = Some (s\<lparr>radio := radio s @ LMIC_reset # cs @ ?post\<rparr>)"
    using assms(1,2) bad
    by (auto simp add: ttn_join_def prep lmic_def Let_def split: option.splits)
  have "foldl session_step None ?post = None"
    by (simp split: option.splits)
  then have "lmic_session (radio s @ LMIC_reset # cs @ ?post) = None"
    using lmic_session_after_reset [OF neutral] by simp
  moreover have "last (radio s @ LMIC_reset # cs @ ?post) = LMIC_startJoining"
    by simp
  moreover have "filter is_setSession (radio s @ LMIC_reset # cs @ ?post) = filter is_setSession (radio s)"
    using filter_setSession_neutral [OF neutral] by (simp split: option.splits)
  ultimately show ?thesis using run by simp
qed

theorem otaa_join_without_keys_starts_full_join_witness:
  "\<not> USE_ABP otaa_config \<and> USE_OTAA otaa_config \<and>
   \<not> (nvs_begin \<lparr>millis = 0, opmode = 0, nvs_begin = True\<rparr> \<and>
      key_stored (flash (boot [''netId'' \<mapsto> UInt 19, ''devAddr'' \<mapsto> UInt 0x26011234,
               ''nwkKey'' \<mapsto> Bytes [1, 2, 3, 4, 5, 6, 7, 8, 9, 10, 11, 12, 13, 14, 15, 16],
               ''artKey'' \<mapsto> Bytes [16, 15, 14, 13, 12, 11, 10, 9, 8, 7]] ())) ''nwkKey'' \<and>
      key_stored (flash (boot [''netId'' \<mapsto> UInt 19, ''devAddr'' \<mapsto> UInt 0x26011234,
               ''nwkKey'' \<mapsto> Bytes [1, 2, 3, 4, 5, 6, 7, 8, 9, 10, 11, 12, 13, 14, 15, 16],
               ''artKey'' \<mapsto> Bytes [16, 15, 14, 13, 12, 11, 10, 9, 8, 7]] ())) ''artKey'') \<and>
   (\<exists>s'. ttn_join otaa_config \<lparr>millis = 0, opmode = 0, nvs_begin = True\<rparr>
        (boot [''netId'' \<mapsto> UInt 19, ''devAddr'' \<mapsto> UInt 0x26011234,
               ''nwkKey'' \<mapsto> Bytes [1, 2, 3, 4, 5, 6, 7, 8, 9, 10, 11, 12, 13, 14, 15, 16],
               ''artKey'' \<mapsto> Bytes [16, 15, 14, 13, 12, 11, 10, 9, 8, 7]] ()) = Some s' \<and>
      lmic_session (radio s') = None \<and> last (radio s') = LMIC_startJoining \<and>
      filter is_setSession (radio s') = [])"
  using otaa_join_without_keys_starts_full_join [of otaa_config "\<lparr>millis = 0, opmode = 0, nvs_begin = True\<rparr>"
        "boot [''netId'' \<mapsto> UInt 19, ''devAddr'' \<mapsto> UInt 0x26011234,
               ''nwkKey'' \<mapsto> Bytes [1, 2, 3, 4, 5, 6, 7, 8, 9, 10, 11, 12, 13, 14, 15, 16],
               ''artKey'' \<mapsto> Bytes [16, 15, 14, 13, 12, 11, 10, 9, 8, 7]] ()"]
  by (auto simp add: otaa_config_def boot_def key_stored_def)

text \<open>
  C7. Under ABP (and fewer than 256 observers, so that the dispatch returns), two calls
  of \<^verbatim>\<open>ttn_join\<close> in a row both return; each makes the same calls \<open>cs\<close> into the radio
  library and publishes \<^verbatim>\<open>EV_JOINED\<close> to every observer once, and changes nothing else;
  after each call the session the radio holds is
  \<open>(1, DEVADDR, NWKSKEY, APPSKEY)\<close>.
\<close>

theorem abp_join_twice_same_session:
  assumes "USE_ABP cfg" and "length (lmic_callbacks s) < 256"
  shows "\<exists>s1 s2 cs.
           ttn_join cfg e1 s = Some s1 \<and> ttn_join cfg e2 s1 = Some s2 \<and>
           s1 = s\<lparr>radio := radio s @ cs, app := deliver EV_JOINED (lmic_callbacks s) (app s)\<rparr> \<and>
           s2 = s1\<lparr>radio := radio s1 @ cs, app := deliver EV_JOINED (lmic_callbacks s1) (app s1)\<rparr> \<and>
           lmic_session (radio s1) = Some (1, DEVADDR cfg, NWKSKEY cfg, APPSKEY cfg) \<and>
           lmic_session (radio s2) = lmic_session (radio s1)"
proof -
  obtain cs where neutral: "\<forall>c\<in>set cs. \<not> is_setSession c \<and> c \<noteq> LMIC_reset"
    and prep: "\<And>s :: 'a ttn. ttn_join_prepare cfg s = s\<lparr>radio := radio s @ LMIC_reset # cs\<rparr>"
    using ttn_join_prepare_calls [of cfg] by blast
  let ?post = "[LMIC_setSession 1 (DEVADDR cfg) (NWKSKEY cfg) (APPSKEY cfg), LMIC_assign_dn2Dr DR_SF9]"
  let ?all = "LMIC_reset # cs @ ?post"
  have run: "ttn_join cfg e t =
               Some (t\<lparr>radio := radio t @ ?all, app := deliver EV_JOINED (lmic_callbacks t) (app t)\<rparr>)"
    if "length (lmic_callbacks t) < 256" for e and t :: "'a ttn"
    using assms(1) that by (simp add: ttn_join_def prep lmic_def Let_def ttn_callback_returns)
  have sess: "lmic_session (pre @ ?all) = Some (1, DEVADDR cfg, NWKSKEY cfg, APPSKEY cfg)" for pre
    using lmic_session_after_reset [OF neutral, of pre ?post] by simp
  let ?s1 = "s\<lparr>radio := radio s @ ?all, app := deliver EV_JOINED (lmic_callbacks s) (app s)\<rparr>"
  let ?s2 = "?s1\<lparr>radio := radio ?s1 @ ?all, app := deliver EV_JOINED (lmic_callbacks ?s1) (app ?s1)\<rparr>"
  have 1: "ttn_join cfg e1 s = Some ?s1" using run [OF assms(2)] .
  have "length (lmic_callbacks ?s1) < 256" using assms(2) by simp
  then have 2: "ttn_join cfg e2 ?s1 = Some ?s2" by (rule run)
  have 3: "lmic_session (radio ?s1) = Some (1, DEVADDR cfg, NWKSKEY cfg, APPSKEY cfg)"
    using sess [of "radio s"] by simp
  have 4: "lmic_session (radio ?s2) = Some (1, DEVADDR cfg, NWKSKEY cfg, APPSKEY cfg)"
    using sess [of "radio s @ ?all"] by simp
  show ?thesis
    apply (rule exI [of _ ?s1], rule exI [of _ ?s2], rule exI [of _ ?all])
    using 1 2 3 4 by simp
qed

theorem abp_join_twice_same_session_witness:
  "USE_ABP abp_config \<and> length (lmic_callbacks (ttn_register logger (boot Map.empty []))) < 256 \<and>
   (\<exists>s1 s2.
      ttn_join abp_config \<lparr>millis = 0, opmode = 0, nvs_begin = True\<rparr>
        (ttn_register logger (boot Map.empty [])) = Some s1 \<and>
      ttn_join abp_config \<lparr>millis = 5, opmode = 0, nvs_begin = True\<rparr> s1 = Some s2 \<and>
      user (app s1) = [EV_JOINED] \<and> user (app s2) = [EV_JOINED, EV_JOINED] \<and>
      lmic_session (radio s1) =
        Some (1, 0x26011234, [1, 2, 3, 4, 5, 6, 7, 8, 9, 10, 11, 12, 13, 14, 15, 16],
              [16, 15, 14, 13, 12, 11, 10, 9, 8, 7, 6, 5, 4, 3, 2, 1]) \<and>
      lmic_session (radio s2) = lmic_session (radio s1))"
  using abp_join_twice_same_session [of abp_config "ttn_register logger (boot Map.empty [])"
        "\<lparr>millis = 0, opmode = 0, nvs_begin = True\<rparr>" "\<lparr>millis = 5, opmode = 0, nvs_begin = True\<rparr>"]
  by (auto simp add: abp_config_def boot_def ttn_register_def logger_def deliver_def)

section \<open>Confirmed uplinks\<close>

lemma confirmed_flags_append:
  "confirmed_flags (xs @ ys) = confirmed_flags xs @ confirmed_flags ys"
  by (induction xs rule: confirmed_flags.induct) simp_all

lemma trySendNew_accepted:
  assumes "length (lmic_callbacks s) < 256" and "opmode e AND OP_TXRXPEND = 0"
  shows "\<exists>s'. trySendNew cfg e txBuffer s = Some (True, s') \<and>
           lmic_callbacks s' = lmic_callbacks s \<and> count s' = count s + 1 \<and>
           radio s' = radio s @
             [LMIC_setSeqnoUp (count s),
              LMIC_setTxData2 (LORAWAN_PORT cfg) txBuffer (of_nat (length txBuffer))
                (if 0 < LORAWAN_CONFIRMED_EVERY cfg \<and>
                    uint (count s) mod LORAWAN_CONFIRMED_EVERY cfg = 0 then 1 else 0)]"
  using assms
  by (simp add: trySendNew_def Let_def ttn_get_count_def ttn_send_accepted)

lemma run_trySendNew_flags:
  assumes "length (lmic_callbacks s) < 256"
    and "\<forall>r\<in>set rs. opmode (fst r) AND OP_TXRXPEND = 0"
  shows "\<exists>s'. run_trySendNew cfg rs s = Some s' \<and>
           lmic_callbacks s' = lmic_callbacks s \<and>
           count s' = count s + of_nat (length rs) \<and>
           confirmed_flags (radio s') = confirmed_flags (radio s) @
             map (\<lambda>k. if 0 < LORAWAN_CONFIRMED_EVERY cfg \<and>
                          uint (count s + of_nat k) mod LORAWAN_CONFIRMED_EVERY cfg = 0
                       then 1 else 0) [0..<length rs]"
  using assms
proof (induction rs arbitrary: s)
  case Nil
  then show ?case by simp
next
  case (Cons r rs)
  obtain e txBuffer where r: "r = (e, txBuffer)" by (cases r)
  with Cons.prems have free: "opmode e AND OP_TXRXPEND = 0" by simp
  from trySendNew_accepted [OF Cons.prems(1) free, of cfg txBuffer] obtain s1 where
    s1: "trySendNew cfg e txBuffer s = Some (True, s1)" "lmic_callbacks s1 = lmic_callbacks s"
        "count s1 = count s + 1"
        "radio s1 = radio s @
             [LMIC_setSeqnoUp (count s),
              LMIC_setTxData2 (LORAWAN_PORT cfg) txBuffer (of_nat (length txBuffer))
                (if 0 < LORAWAN_CONFIRMED_EVERY cfg \<and>
                    uint (count s) mod LORAWAN_CONFIRMED_EVERY cfg = 0 then 1 else 0)]"
    by blast
  have "length (lmic_callbacks s1) < 256" using s1(2) Cons.prems(1) by simp
  moreover have "\<forall>r\<in>set rs. opmode (fst r) AND OP_TXRXPEND = 0" using Cons.prems(2) by simp
  ultimately obtain s' where
    s': "run_trySendNew cfg rs s1 = Some s'" "lmic_callbacks s' = lmic_callbacks s1"
        "count s' = count s1 + of_nat (length rs)"
        "confirmed_flags (radio s') = confirmed_flags (radio s1) @
             map (\<lambda>k. if 0 < LORAWAN_CONFIRMED_EVERY cfg \<and>
                          uint (count s1 + of_nat k) mod LORAWAN_CONFIRMED_EVERY cfg = 0
                       then 1 else 0) [0..<length rs]"
    using Cons.IH by blast
  have shift: "count s1 + of_nat k = count s + of_nat (Suc k)" for k
    using s1(3) by simp
  have "run_trySendNew cfg (r # rs) s = Some s'" using r s1(1) s'(1) by simp
  moreover have "lmic_callbacks s' = lmic_callbacks s" using s'(2) s1(2) by simp
  moreover have "count s' = count s + of_nat (length (r # rs))" using s'(3) s1(3) by simp
  moreover have "confirmed_flags (radio s') = confirmed_flags (radio s) @
             map (\<lambda>k. if 0 < LORAWAN_CONFIRMED_EVERY cfg \<and>
                          uint (count s + of_nat k) mod LORAWAN_CONFIRMED_EVERY cfg = 0
                       then 1 else 0) [0..<length (r # rs)]"
    unfolding s'(4) s1(4) shift
    by (simp add: confirmed_flags_append map_upt_Suc del: upt_Suc of_nat_Suc)
  ultimately show ?case by blast
qed

lemma upt_15: "[0..<15] = [0, 1, 2, 3, 4, 5, 6, 7, 8, 9, 10, 11, 12, 13, 14]"
  by (simp add: upt_rec)

lemma upt_3: "[0..<3] = [0, 1, 2]"
  by (simp add: upt_rec)

text \<open>
  C5, as stated: the confirmed uplinks are chosen by the post-increment counter, so of
  fifteen accepted sends exactly the tenth is confirmed. \<^verbatim>\<open>trySendNew\<close> reads
  \<^verbatim>\<open>ttn_get_count()\<close> before \<^verbatim>\<open>ttn_send\<close> increments it: with
  \<^verbatim>\<open>LORAWAN_CONFIRMED_EVERY\<close> = 10, of fifteen accepted sends from \<open>count = 0\<close> the first
  and the eleventh are confirmed and the tenth is not.
\<close>

theorem tenth_send_unconfirmed_counterexample:
  "map_option (confirmed_flags \<circ> radio)
     (run_trySendNew otaa_config
        (replicate 15 (\<lparr>millis = 0, opmode = 0, nvs_begin = True\<rparr>, [0, 0, 0, 0, 0, 0, 0, 0, 0, 0]))
        (boot Map.empty ()))
   = Some [1, 0, 0, 0, 0, 0, 0, 0, 0, 0, 1, 0, 0, 0, 0]"
  using run_trySendNew_flags
    [of "boot Map.empty ()"
        "replicate 15 (\<lparr>millis = 0, opmode = 0, nvs_begin = True\<rparr>, [0, 0, 0, 0, 0, 0, 0, 0, 0, 0])"
        otaa_config]
  by (auto simp add: boot_def otaa_config_def OP_TXRXPEND_def upt_15)

text \<open>
  C5, amended: when \<^verbatim>\<open>LORAWAN_CONFIRMED_EVERY\<close> is a positive \<open>N\<close>, in any run of
  accepted sends (fewer than 256 observers) the send that finds the counter at \<open>c\<close>
  before its increment is confirmed exactly when \<open>c mod N = 0\<close>, and all others are
  unconfirmed: the \<open>k\<close>-th send of the run, counted from 0, is confirmed iff
  \<open>(count + k) mod N = 0\<close>.
\<close>

theorem confirmed_on_multiples_of_preincrement_count:
  assumes "0 < LORAWAN_CONFIRMED_EVERY cfg" and "length (lmic_callbacks s) < 256"
    and "\<forall>r\<in>set rs. opmode (fst r) AND OP_TXRXPEND = 0"
  shows "\<exists>s'. run_trySendNew cfg rs s = Some s' \<and>
           count s' = count s + of_nat (length rs) \<and>
           confirmed_flags (radio s') = confirmed_flags (radio s) @
             map (\<lambda>k. if uint (count s + of_nat k) mod LORAWAN_CONFIRMED_EVERY cfg = 0
                       then 1 else 0) [0..<length rs]"
  using run_trySendNew_flags [OF assms(2,3), of cfg] assms(1) by auto

theorem confirmed_on_multiples_of_preincrement_count_witness:
  "0 < LORAWAN_CONFIRMED_EVERY otaa_config \<and>
   length (lmic_callbacks ((boot Map.empty ())\<lparr>count := 9\<rparr>)) < 256 \<and>
   (\<exists>s'. run_trySendNew otaa_config
            (replicate 3 (\<lparr>millis = 0, opmode = 0, nvs_begin = True\<rparr>, [0, 0, 0, 0, 0, 0, 0, 0, 0, 0]))
            ((boot Map.empty ())\<lparr>count := 9\<rparr>) = Some s' \<and>
         count s' = 12 \<and> confirmed_flags (radio s') = [0, 1, 0])"
  using confirmed_on_multiples_of_preincrement_count
    [of otaa_config "(boot Map.empty ())\<lparr>count := 9\<rparr>"
        "replicate 3 (\<lparr>millis = 0, opmode = 0, nvs_begin = True\<rparr>, [0, 0, 0, 0, 0, 0, 0, 0, 0, 0])"]
  by (auto simp add: boot_def otaa_config_def OP_TXRXPEND_def upt_3)

section \<open>Sleep duration\<close>

lemma unat_ucast_u32_u64: "unat (ucast (x :: u32) :: u64) = unat x"
proof -
  have "unat x < 2 ^ 32" using unsigned_less [of x, where ?'a = nat] by simp
  then have "unat x < 2 ^ 64" by simp
  then show ?thesis by (simp add: unsigned_ucast_eq take_bit_nat_eq_self)
qed

lemma sleep_for_unat:
  "unat (sleep_for interval now now) =
     (if now < interval then unat interval - unat now else unat interval)"
  by (simp add: sleep_for_def unat_sub)

lemma sleep_for_spec_iff:
  assumes "0 < interval"
  shows "(unat (sleep_for interval now now) = spec_sleep_for (unat interval) (unat now))
         = (now < interval \<or> unat now mod unat interval = 0)"
proof (cases "now < interval")
  case True
  then have "unat now < unat interval" by (simp add: word_less_nat_alt)
  then show ?thesis using True by (simp add: sleep_for_unat spec_sleep_for_def)
next
  case False
  from assms have pos: "0 < unat interval" by (simp add: word_less_nat_alt)
  then have "unat now mod unat interval < unat interval" by simp
  then have "(unat interval = unat interval - unat now mod unat interval)
             = (unat now mod unat interval = 0)"
    using pos by arith
  then show ?thesis using False by (simp add: sleep_for_unat spec_sleep_for_def)
qed

lemma sleep_for_unat2:
  "unat (sleep_for interval t1 t2) =
     (if t1 < interval
      then (if t2 \<le> interval then unat interval - unat t2
            else unat interval + 2 ^ 32 - unat t2)
      else unat interval)"
  by (simp add: sleep_for_def unat_sub_if_size word_size word_le_nat_alt)

text \<open>
  C6, as stated: for every \<open>now\<close> the sleep duration is
  \<open>base_interval - (now mod base_interval)\<close>. Once \<open>now\<close> has passed the interval the
  code sleeps a whole interval: with an interval of 60000 ms and \<open>now = 90000\<close> it sleeps
  60000 ms, not 30000 ms.
\<close>

theorem sleep_off_grid_counterexample:
  "map_option unat (sleep otaa_config 90000 90000) = Some 60000 \<and>
   spec_sleep_for (unat (SEND_INTERVAL otaa_config)) (unat (90000 :: u32)) = 30000"
  by (simp add: sleep_def sleep_for_def otaa_config_def spec_sleep_for_def unat_ucast_u32_u64)

text \<open>
  C6, amended: with a positive \<^verbatim>\<open>SEND_INTERVAL\<close>, and \<open>t1\<close>, \<open>t2\<close> the two readings of
  \<^verbatim>\<open>millis()\<close> (in the comparison, then in the subtraction), \<^verbatim>\<open>sleep\<close> sleeps a whole
  \<^verbatim>\<open>SEND_INTERVAL\<close> when \<open>t1 \<ge> SEND_INTERVAL\<close>, and otherwise \<open>SEND_INTERVAL - t2\<close>
  in 32-bit arithmetic: that is \<open>SEND_INTERVAL - t2\<close> when \<open>t2 \<le> SEND_INTERVAL\<close> (zero at
  \<open>t2 = SEND_INTERVAL\<close>) and \<open>2^32 + SEND_INTERVAL - t2\<close> when the clock has passed
  \<^verbatim>\<open>SEND_INTERVAL\<close> between the readings. When both readings are the same \<open>now\<close>, the
  duration is positive and at most \<^verbatim>\<open>SEND_INTERVAL\<close>, and it equals
  \<open>base_interval - (now mod base_interval)\<close> exactly when \<open>now < SEND_INTERVAL\<close> or \<open>now\<close>
  is a multiple of \<^verbatim>\<open>SEND_INTERVAL\<close>.
\<close>

theorem sleep_duration_on_grid_iff:
  assumes "SLEEP_BETWEEN_MESSAGES cfg" and "0 < SEND_INTERVAL cfg"
  shows "\<exists>d. sleep cfg t1 t2 = Some d \<and>
           unat d = (if t1 < SEND_INTERVAL cfg
                     then (if t2 \<le> SEND_INTERVAL cfg then unat (SEND_INTERVAL cfg) - unat t2
                           else unat (SEND_INTERVAL cfg) + 2 ^ 32 - unat t2)
                     else unat (SEND_INTERVAL cfg)) \<and>
           (t1 = t2 \<longrightarrow>
              0 < unat d \<and> unat d \<le> unat (SEND_INTERVAL cfg) \<and>
              ((unat d = spec_sleep_for (unat (SEND_INTERVAL cfg)) (unat t2))
               = (t2 < SEND_INTERVAL cfg \<or> unat t2 mod unat (SEND_INTERVAL cfg) = 0)))"
proof -
  let ?i = "SEND_INTERVAL cfg"
  let ?d = "ucast (sleep_for ?i t1 t2) :: u64"
  have d: "unat ?d = unat (sleep_for ?i t1 t2)"
    by (rule unat_ucast_u32_u64)
  have ret: "sleep cfg t1 t2 = Some ?d" using assms(1) by (simp add: sleep_def)
  have val: "unat ?d = (if t1 < ?i
                     then (if t2 \<le> ?i then unat ?i - unat t2 else unat ?i + 2 ^ 32 - unat t2)
                     else unat ?i)"
    unfolding d by (rule sleep_for_unat2)
  have same: "0 < unat ?d \<and> unat ?d \<le> unat ?i \<and>
              ((unat ?d = spec_sleep_for (unat ?i) (unat t2))
               = (t2 < ?i \<or> unat t2 mod unat ?i = 0))" if eq: "t1 = t2"
  proof -
    have pos: "0 < unat ?i" using assms(2) by (simp add: word_less_nat_alt)
    have lt: "t2 < ?i \<Longrightarrow> unat t2 < unat ?i" by (simp add: word_less_nat_alt)
    have d': "unat (ucast (sleep_for ?i t2 t2) :: u64) = unat (sleep_for ?i t2 t2)"
      by (rule unat_ucast_u32_u64)
    have one: "unat ?d = (if t2 < ?i then unat ?i - unat t2 else unat ?i)"
      unfolding eq d' by (rule sleep_for_unat)
    have "0 < unat ?d" unfolding one using pos lt by simp
    moreover have "unat ?d \<le> unat ?i" unfolding one by simp
    moreover have "(unat ?d = spec_sleep_for (unat ?i) (unat t2))
               = (t2 < ?i \<or> unat t2 mod unat ?i = 0)"
      unfolding eq d' by (rule sleep_for_spec_iff [OF assms(2)])
    ultimately show ?thesis by (intro conjI)
  qed
  show ?thesis
  proof (intro exI [of _ ?d] conjI impI)
    show "sleep cfg t1 t2 = Some ?d" by (rule ret)
    show "unat ?d = (if t1 < ?i
                     then (if t2 \<le> ?i then unat ?i - unat t2 else unat ?i + 2 ^ 32 - unat t2)
                     else unat ?i)" by (rule val)
    assume eq: "t1 = t2"
    show "0 < unat ?d" using same [OF eq] by (rule conjunct1)
    show "unat ?d \<le> unat ?i" using same [OF eq] by (elim conjE)
    show "(unat ?d = spec_sleep_for (unat ?i) (unat t2))
               = (t2 < ?i \<or> unat t2 mod unat ?i = 0)" using same [OF eq] by (elim conjE)
  qed
qed

theorem sleep_duration_on_grid_iff_witness:
  "SLEEP_BETWEEN_MESSAGES otaa_config \<and> 0 < SEND_INTERVAL otaa_config \<and>
   (\<exists>d. sleep otaa_config 1500 1500 = Some d \<and> unat d = 58500 \<and>
        unat d = spec_sleep_for (unat (SEND_INTERVAL otaa_config)) (unat (1500 :: u32))) \<and>
   (\<exists>d. sleep otaa_config 59999 60000 = Some d \<and> unat d = 0) \<and>
   (\<exists>d. sleep otaa_config 59999 60001 = Some d \<and> unat d = 4294967295)"
proof -
  have h1: "SLEEP_BETWEEN_MESSAGES otaa_config" by (simp add: otaa_config_def)
  have h2: "0 < SEND_INTERVAL otaa_config" by (simp add: otaa_config_def)
  have i: "SEND_INTERVAL otaa_config = 60000" by (simp add: otaa_config_def)
  from sleep_duration_on_grid_iff [OF h1 h2, of 1500 1500] obtain d where
    d: "sleep otaa_config 1500 1500 = Some d"
       "unat d = (if 1500 < SEND_INTERVAL otaa_config
                  then (if 1500 \<le> SEND_INTERVAL otaa_config
                        then unat (SEND_INTERVAL otaa_config) - unat (1500 :: u32)
                        else unat (SEND_INTERVAL otaa_config) + 2 ^ 32 - unat (1500 :: u32))
                  else unat (SEND_INTERVAL otaa_config))"
       "(1500 :: u32) = 1500 \<longrightarrow>
          0 < unat d \<and> unat d \<le> unat (SEND_INTERVAL otaa_config) \<and>
          ((unat d = spec_sleep_for (unat (SEND_INTERVAL otaa_config)) (unat (1500 :: u32)))
           = (1500 < SEND_INTERVAL otaa_config \<or>
              unat (1500 :: u32) mod unat (SEND_INTERVAL otaa_config) = 0))"
    by (elim exE conjE)
  from d(2) have v: "unat d = 58500" unfolding i by simp
  from d(3) have "(unat d = spec_sleep_for (unat (SEND_INTERVAL otaa_config)) (unat (1500 :: u32)))
           = (1500 < SEND_INTERVAL otaa_config \<or>
              unat (1500 :: u32) mod unat (SEND_INTERVAL otaa_config) = 0)" by simp
  then have g: "unat d = spec_sleep_for (unat (SEND_INTERVAL otaa_config)) (unat (1500 :: u32))"
    unfolding i by simp
  have a: "\<exists>d. sleep otaa_config 1500 1500 = Some d \<and> unat d = 58500 \<and>
        unat d = spec_sleep_for (unat (SEND_INTERVAL otaa_config)) (unat (1500 :: u32))"
    using d(1) v g by (intro exI [of _ d] conjI)
  from sleep_duration_on_grid_iff [OF h1 h2, of 59999 60000] obtain d0 where
    d0: "sleep otaa_config 59999 60000 = Some d0"
       "unat d0 = (if 59999 < SEND_INTERVAL otaa_config
                  then (if 60000 \<le> SEND_INTERVAL otaa_config
                        then unat (SEND_INTERVAL otaa_config) - unat (60000 :: u32)
                        else unat (SEND_INTERVAL otaa_config) + 2 ^ 32 - unat (60000 :: u32))
                  else unat (SEND_INTERVAL otaa_config))"
    by (elim exE conjE)
  from d0(2) have "unat d0 = 0" unfolding i by simp
  with d0(1) have b: "\<exists>d. sleep otaa_config 59999 60000 = Some d \<and> unat d = 0"
    by (intro exI [of _ d0] conjI)
  from sleep_duration_on_grid_iff [OF h1 h2, of 59999 60001] obtain d1 where
    d1: "sleep otaa_config 59999 60001 = Some d1"
       "unat d1 = (if 59999 < SEND_INTERVAL otaa_config
                  then (if 60001 \<le> SEND_INTERVAL otaa_config
                        then unat (SEND_INTERVAL otaa_config) - unat (60001 :: u32)
                        else unat (SEND_INTERVAL otaa_config) + 2 ^ 32 - unat (60001 :: u32))
                  else unat (SEND_INTERVAL otaa_config))"
    by (elim exE conjE)
  from d1(2) have "unat d1 = 4294967295" unfolding i by simp
  with d1(1) have c: "\<exists>d. sleep otaa_config 59999 60001 = Some d \<and> unat d = 4294967295"
    by (intro exI [of _ d1] conjI)
  from h1 h2 a b c show ?thesis by (intro conjI)
qed

section \<open>Downlink payload\<close>

lemma u8_succ:
  "(i :: u8) < n \<Longrightarrow> unat (i + 1) = unat i + 1"
proof -
  assume "i < n"
  then have "unat i < unat n" by (simp add: word_less_nat_alt)
  moreover have "unat n < 256" by (rule unat_u8_bound)
  ultimately show ?thesis by (simp add: unat_word_ariths)
qed

lemma ttn_response_loop_copies:
  assumes "unat dataBeg + unat dataLen \<le> length frame" and "unat dataLen \<le> length buffer"
  shows "\<exists>out. ttn_response_loop frame dataBeg dataLen i buffer = Inr out \<and>
           length out = length buffer \<and>
           (\<forall>j<length buffer. out ! j =
              (if unat i \<le> j \<and> j < unat dataLen then frame ! (unat dataBeg + j) else buffer ! j))"
  using assms
proof (induction frame dataBeg dataLen i buffer rule: ttn_response_loop.induct)
  case (1 frame dataBeg dataLen i buffer)
  show ?case
  proof (cases "i < dataLen")
    case False
    then have "unat dataLen \<le> unat i" by (simp add: word_less_nat_alt)
    then show ?thesis using False
      by (subst ttn_response_loop.simps) auto
  next
    case True
    then have lt: "unat i < unat dataLen" by (simp add: word_less_nat_alt)
    have succ: "unat (i + 1) = unat i + 1" using True by (rule u8_succ)
    let ?b = "buffer[unat i := frame ! (unat dataBeg + unat i)]"
    have inframe: "\<not> length frame \<le> unat dataBeg + unat i" using lt "1.prems"(1) by simp
    have inbuf: "\<not> length buffer \<le> unat i" using lt "1.prems"(2) by simp
    have "unat dataLen \<le> length ?b" using "1.prems"(2) by simp
    from "1.IH" [OF True inframe inbuf "1.prems"(1) this] obtain out where
      out: "ttn_response_loop frame dataBeg dataLen (i + 1) ?b = Inr out"
           "length out = length ?b"
           "\<forall>j<length ?b. out ! j =
              (if unat (i + 1) \<le> j \<and> j < unat dataLen then frame ! (unat dataBeg + j) else ?b ! j)"
      by blast
    have step: "ttn_response_loop frame dataBeg dataLen i buffer = Inr out"
      using True inframe inbuf out(1) by (subst ttn_response_loop.simps) simp
    have "out ! j = (if unat i \<le> j \<and> j < unat dataLen then frame ! (unat dataBeg + j) else buffer ! j)"
      if "j < length buffer" for j
    proof (cases "j = unat i")
      case True
      with that out(3) succ lt show ?thesis by simp
    next
      case False
      with that out(3) succ show ?thesis by (auto simp: nth_list_update)
    qed
    with step out(2) show ?thesis by simp
  qed
qed

lemma ttn_response_loop_overruns:
  assumes "unat dataBeg + unat dataLen \<le> length frame" and "length buffer < unat dataLen"
    and "unat i \<le> length buffer"
  shows "\<exists>out. ttn_response_loop frame dataBeg dataLen i buffer
                 = Inl (BufferOverrun (length buffer) out) \<and>
           length out = length buffer \<and>
           (\<forall>j<length buffer. out ! j =
              (if unat i \<le> j then frame ! (unat dataBeg + j) else buffer ! j))"
  using assms
proof (induction frame dataBeg dataLen i buffer rule: ttn_response_loop.induct)
  case (1 frame dataBeg dataLen i buffer)
  from "1.prems" have lt: "unat i < unat dataLen" by simp
  then have True: "i < dataLen" by (simp add: word_less_nat_alt)
  have succ: "unat (i + 1) = unat i + 1" using True by (rule u8_succ)
  have inframe: "\<not> length frame \<le> unat dataBeg + unat i" using lt "1.prems"(1) by simp
  show ?case
  proof (cases "length buffer \<le> unat i")
    case True
    with "1.prems"(3) have "unat i = length buffer" by simp
    with \<open>i < dataLen\<close> inframe show ?thesis
      by (subst ttn_response_loop.simps) simp
  next
    case False
    let ?b = "buffer[unat i := frame ! (unat dataBeg + unat i)]"
    have "length ?b < unat dataLen" using "1.prems"(2) by simp
    moreover have "unat (i + 1) \<le> length ?b" using False succ by simp
    ultimately obtain out where
      out: "ttn_response_loop frame dataBeg dataLen (i + 1) ?b = Inl (BufferOverrun (length ?b) out)"
           "length out = length ?b"
           "\<forall>j<length ?b. out ! j =
              (if unat (i + 1) \<le> j then frame ! (unat dataBeg + j) else ?b ! j)"
      using "1.IH" [OF True inframe False "1.prems"(1)] by blast
    have step: "ttn_response_loop frame dataBeg dataLen i buffer
                = Inl (BufferOverrun (length buffer) out)"
      using True inframe False out(1) by (subst ttn_response_loop.simps) simp
    have "out ! j = (if unat i \<le> j then frame ! (unat dataBeg + j) else buffer ! j)"
      if "j < length buffer" for j
    proof (cases "j = unat i")
      case True
      with that out(3) succ show ?thesis by simp
    next
      case False
      with that out(3) succ show ?thesis by (auto simp: nth_list_update)
    qed
    with step out(2) show ?thesis by simp
  qed
qed

lemma payload_written:
  assumes len: "length out = length buffer" and n: "n \<le> length buffer" and b: "b + n \<le> length frame"
    and nth: "\<forall>j<length buffer. out ! j = (if j < n then frame ! (b + j) else buffer ! j)"
  shows "out = take n (drop b frame) @ drop n buffer"
proof (rule nth_equalityI)
  have tk: "length (take n (drop b frame)) = n" using b by simp
  show "length out = length (take n (drop b frame) @ drop n buffer)"
    using len n tk by simp
  fix j assume "j < length out"
  with len have j: "j < length buffer" by simp
  show "out ! j = (take n (drop b frame) @ drop n buffer) ! j"
  proof (cases "j < n")
    case True
    then have "(take n (drop b frame) @ drop n buffer) ! j = take n (drop b frame) ! j"
      using tk by (simp add: nth_append)
    also have "\<dots> = frame ! (b + j)" using True b by simp
    finally show ?thesis using nth j True by simp
  next
    case False
    then have "(take n (drop b frame) @ drop n buffer) ! j = drop n buffer ! (j - n)"
      using tk by (simp add: nth_append)
    also have "\<dots> = buffer ! j" using False n by simp
    finally show ?thesis using nth j False by simp
  qed
qed

lemma ttn_response_len_unat: "unat (ttn_response_len dataLen) = unat dataLen"
proof -
  have "unat dataLen < 2 ^ 32" using unat_u8_bound [of dataLen] by simp
  then show ?thesis by (simp add: ttn_response_len_def unsigned_ucast_eq take_bit_nat_eq_self)
qed

text \<open>
  C9. \<^verbatim>\<open>ttn_response_len\<close> returns \<^verbatim>\<open>LMIC.dataLen\<close>. Provided the payload lies inside
  \<^verbatim>\<open>LMIC.frame\<close>, the result of \<^verbatim>\<open>ttn_response\<close> does not depend on \<open>len\<close>; with a
  buffer of at least \<^verbatim>\<open>LMIC.dataLen\<close> bytes the buffer afterwards is the \<^verbatim>\<open>dataLen\<close>
  payload bytes \<open>frame[dataBeg ..]\<close> followed by the untouched rest of the buffer; with a
  shorter buffer the loop fills the whole buffer with the first payload bytes and then
  writes past its end, at index \<open>length buffer\<close>.
\<close>

theorem ttn_response_copies_dataLen_bytes:
  assumes "unat dataBeg + unat dataLen \<le> length frame"
  shows "unat (ttn_response_len dataLen) = unat dataLen \<and>
         ttn_response frame dataBeg dataLen buffer len = ttn_response frame dataBeg dataLen buffer len' \<and>
         ttn_response frame dataBeg dataLen buffer len =
           (if unat dataLen \<le> length buffer
            then Inr (take (unat dataLen) (drop (unat dataBeg) frame) @ drop (unat dataLen) buffer)
            else Inl (BufferOverrun (length buffer)
                        (take (length buffer) (drop (unat dataBeg) frame))))"
proof (intro conjI)
  show "unat (ttn_response_len dataLen) = unat dataLen"
    by (rule ttn_response_len_unat)
next
  show "ttn_response frame dataBeg dataLen buffer len = ttn_response frame dataBeg dataLen buffer len'"
    by (simp add: ttn_response_def)
next
  show "ttn_response frame dataBeg dataLen buffer len =
           (if unat dataLen \<le> length buffer
            then Inr (take (unat dataLen) (drop (unat dataBeg) frame) @ drop (unat dataLen) buffer)
            else Inl (BufferOverrun (length buffer)
                        (take (length buffer) (drop (unat dataBeg) frame))))"
  proof (cases "unat dataLen \<le> length buffer")
    case True
    from ttn_response_loop_copies [OF assms True, of 0] obtain out where
      out: "ttn_response_loop frame dataBeg dataLen 0 buffer = Inr out" "length out = length buffer"
           "\<forall>j<length buffer. out ! j =
              (if j < unat dataLen then frame ! (unat dataBeg + j) else buffer ! j)"
      by auto
    from payload_written [OF out(2) True assms out(3)] out(1) True show ?thesis
      by (simp add: ttn_response_def)
  next
    case False
    then have short: "length buffer < unat dataLen" by simp
    from ttn_response_loop_overruns [OF assms short, of 0] obtain out where
      out: "ttn_response_loop frame dataBeg dataLen 0 buffer
              = Inl (BufferOverrun (length buffer) out)"
           "length out = length buffer"
           "\<forall>j<length buffer. out ! j = frame ! (unat dataBeg + j)"
      by auto
    have inframe: "unat dataBeg + length buffer \<le> length frame" using assms short by simp
    have "\<forall>j<length buffer. out ! j =
            (if j < length buffer then frame ! (unat dataBeg + j) else buffer ! j)"
      using out(3) by simp
    from payload_written [OF out(2) order_refl inframe this]
    have "out = take (length buffer) (drop (unat dataBeg) frame)" by simp
    with out(1) False show ?thesis by (simp add: ttn_response_def)
  qed
qed

theorem ttn_response_copies_dataLen_bytes_witness:
  "unat (2 :: u8) + unat (3 :: u8) \<le> length [10, 11, 12, 13, 14, 15, 16 :: u8] \<and>
   ttn_response [10, 11, 12, 13, 14, 15, 16] 2 3 [0, 0, 0, 0] 4 = Inr [12, 13, 14, 0] \<and>
   ttn_response [10, 11, 12, 13, 14, 15, 16] 2 3 [0, 0, 0, 0] 0 = Inr [12, 13, 14, 0] \<and>
   ttn_response [10, 11, 12, 13, 14, 15, 16] 2 3 [0, 0] 2 = Inl (BufferOverrun 2 [12, 13])"
proof -
  have h: "unat (2 :: u8) + unat (3 :: u8) \<le> length [10, 11, 12, 13, 14, 15, 16 :: u8]" by simp
  have "ttn_response [10, 11, 12, 13, 14, 15, 16] 2 3 [0, 0, 0, 0] 4 = Inr [12, 13, 14, 0]"
    using ttn_response_copies_dataLen_bytes [OF h, of "[0, 0, 0, 0]" 4 0, THEN conjunct2, THEN conjunct2]
    by simp
  moreover have "ttn_response [10, 11, 12, 13, 14, 15, 16] 2 3 [0, 0, 0, 0] 0 = Inr [12, 13, 14, 0]"
    using ttn_response_copies_dataLen_bytes [OF h, of "[0, 0, 0, 0]" 0 4, THEN conjunct2, THEN conjunct2]
    by simp
  moreover have "ttn_response [10, 11, 12, 13, 14, 15, 16] 2 3 [0, 0] 2
                 = Inl (BufferOverrun 2 [12, 13])"
    using ttn_response_copies_dataLen_bytes [OF h, of "[0, 0]" 2 2, THEN conjunct2, THEN conjunct2]
    by simp
  ultimately show ?thesis using h by (intro conjI)
qed

end
